theory Spec2Isabelle
  imports Main
begin

section \<open>JavaScript values used by scalable\_linked\_list.js\<close>

text \<open>
  The module is written in JavaScript. Three features of the language decide what the
  code does on the inputs studied here and are therefore written out: truthiness
  (\<open>if (x)\<close>, \<open>!x\<close>), the conversion of a number to a string (\<open>x + ''\<close>) and
  \<open>parseInt\<close>. Numbers are restricted to the integers and \<open>NaN\<close>.
\<close>

datatype jsnum = JNum int | JNaN

datatype jsval = JUndefined | JNull | JNumber jsnum | JString string

fun truthy_num :: "jsnum \<Rightarrow> bool" where
  "truthy_num (JNum n) = (n \<noteq> 0)"
| "truthy_num JNaN = False"

fun truthy :: "jsval \<Rightarrow> bool" where
  "truthy JUndefined = False"
| "truthy JNull = False"
| "truthy (JNumber n) = truthy_num n"
| "truthy (JString s) = (s \<noteq> [])"

text \<open>Relational operators on numbers: every comparison with \<open>NaN\<close> is false.\<close>

fun js_lt :: "jsnum \<Rightarrow> jsnum \<Rightarrow> bool" where
  "js_lt (JNum a) (JNum b) = (a < b)"
| "js_lt _ _ = False"

fun js_le :: "jsnum \<Rightarrow> jsnum \<Rightarrow> bool" where
  "js_le (JNum a) (JNum b) = (a \<le> b)"
| "js_le _ _ = False"

fun js_ge :: "jsnum \<Rightarrow> jsnum \<Rightarrow> bool" where
  "js_ge (JNum a) (JNum b) = (a \<ge> b)"
| "js_ge _ _ = False"

fun js_minus :: "jsnum \<Rightarrow> int \<Rightarrow> jsnum" where
  "js_minus (JNum a) b = JNum (a - b)"
| "js_minus JNaN b = JNaN"

subsection \<open>Number to string\<close>

definition digit_char :: "nat \<Rightarrow> char" where
  "digit_char d = char_of (48 + d)"

fun nat_to_string :: "nat \<Rightarrow> string" where
  "nat_to_string n =
     (if n < 10 then [digit_char n]
      else nat_to_string (n div 10) @ [digit_char (n mod 10)])"

declare nat_to_string.simps [simp del]

text \<open>\<open>x + ''\<close> for a number \<open>x\<close>: decimal digits, a leading minus sign, or \<open>NaN\<close>.\<close>

fun number_to_string :: "jsnum \<Rightarrow> string" where
  "number_to_string (JNum n) =
     (if n < 0 then CHR ''-'' # nat_to_string (nat (- n)) else nat_to_string (nat n))"
| "number_to_string JNaN = ''NaN''"

declare number_to_string.simps [simp del]

subsection \<open>parseInt\<close>

definition is_space :: "char \<Rightarrow> bool" where
  "is_space c = (c \<in> set [CHR '' '', CHR 0x09, CHR 0x0A, CHR 0x0B, CHR 0x0C, CHR 0x0D])"

definition digit_val :: "char \<Rightarrow> nat option" where
  "digit_val c =
     (let k = (of_char c :: nat) in
      if 48 \<le> k \<and> k \<le> 57 then Some (k - 48)
      else if 97 \<le> k \<and> k \<le> 122 then Some (k - 87)
      else if 65 \<le> k \<and> k \<le> 90 then Some (k - 55)
      else None)"

definition is_digit_in :: "nat \<Rightarrow> char \<Rightarrow> bool" where
  "is_digit_in radix c = (case digit_val c of Some d \<Rightarrow> d < radix | None \<Rightarrow> False)"

definition digits_value :: "nat \<Rightarrow> string \<Rightarrow> nat" where
  "digits_value radix ds =
     foldl (\<lambda>a c. case digit_val c of Some d \<Rightarrow> a * radix + d | None \<Rightarrow> a) 0 ds"

text \<open>
  \<open>parseInt(s)\<close> with no radix argument: leading white space is skipped, an optional
  sign is read, a \<open>0x\<close> or \<open>0X\<close> prefix selects base 16, and the longest prefix of
  digits of the base is the value; without any digit the result is \<open>NaN\<close>.
\<close>

definition parseInt_string :: "string \<Rightarrow> jsnum" where
  "parseInt_string s =
     (let s1 = dropWhile is_space s;
          neg = (take 1 s1 = ''-'');
          s2 = (if take 1 s1 = ''-'' \<or> take 1 s1 = ''+'' then drop 1 s1 else s1);
          hex = (take 2 s2 = ''0x'' \<or> take 2 s2 = ''0X'');
          radix = (if hex then 16 else 10);
          s3 = (if hex then drop 2 s2 else s2);
          ds = takeWhile (is_digit_in radix) s3
      in if ds = [] then JNaN
         else JNum ((if neg then - 1 else 1) * int (digits_value radix ds)))"

text \<open>
  \<open>parseInt(x)\<close> first converts \<open>x\<close> to a string: an integer reads back as itself,
  \<open>undefined\<close>, \<open>null\<close> and \<open>NaN\<close> have no digit.
\<close>

fun parseInt :: "jsval \<Rightarrow> jsnum" where
  "parseInt (JString s) = parseInt_string s"
| "parseInt (JNumber (JNum n)) = JNum n"
| "parseInt (JNumber JNaN) = JNaN"
| "parseInt JUndefined = JNaN"
| "parseInt JNull = JNaN"

subsection \<open>Array.prototype.splice and slice\<close>

text \<open>
  \<open>xs.splice(start, deleteCount)\<close> leaves in \<open>xs\<close> the elements outside the deleted
  range; a negative start counts from the end and both arguments are clamped.
\<close>

definition js_splice :: "int \<Rightarrow> int \<Rightarrow> 'a list \<Rightarrow> 'a list" where
  "js_splice start deleteCount xs =
     (let len = int (length xs);
          actualStart = (if start < 0 then max (len + start) 0 else min start len);
          actualDeleteCount = min (max deleteCount 0) (len - actualStart)
      in take (nat actualStart) xs @ drop (nat (actualStart + actualDeleteCount)) xs)"

text \<open>\<open>xs.slice(0, end)\<close>: a negative end counts from the end of the array.\<close>

definition js_slice0 :: "int \<Rightarrow> 'a list \<Rightarrow> 'a list" where
  "js_slice0 end xs =
     (let len = int (length xs);
          final = (if end < 0 then max (len + end) 0 else min end len)
      in take (nat final) xs)"

section \<open>Configuration and constants\<close>

record config =
  tableName :: string
  region :: string
  maxElementPerPage :: jsnum

text \<open>The module-level \<open>config\<close> object as it is when the module is loaded.\<close>

definition initial_config :: config where
  "initial_config = \<lparr>tableName = '''', region = '''', maxElementPerPage = JNum 50\<rparr>"

definition labels_summary :: string where
  "labels_summary = ''_summary''"

definition labels_publicSummary :: string where
  "labels_publicSummary = ''summary''"

definition configureDynamoDB :: "string \<Rightarrow> string \<Rightarrow> config \<Rightarrow> config" where
  "configureDynamoDB reg table cfg = cfg\<lparr>region := reg, tableName := table\<rparr>"

text \<open>
  The argument is a number or is omitted (\<open>None\<close>); \<open>if (numberOfMaximumElement)\<close> is
  the truthiness test.
\<close>

definition configureMaximumNumberOfElementPerPage :: "jsnum option \<Rightarrow> config \<Rightarrow> config" where
  "configureMaximumNumberOfElementPerPage numberOfMaximumElement cfg =
     (case numberOfMaximumElement of
        None \<Rightarrow> cfg
      | Some m \<Rightarrow> if truthy_num m then cfg\<lparr>maxElementPerPage := m\<rparr> else cfg)"

section \<open>Page model\<close>

text \<open>
  A value appended to a list is an object whose content is opaque to the module. The
  summary item and the data page carry the fields the module writes; the time stamp
  \<open>new Date().getTime()\<close> is a parameter \<open>now\<close> of the functions that read the clock.
\<close>

type_synonym payload = string

record summary =
  sm_v :: int
  sm_id :: string
  sm_metadata :: "string option"
  sm_submittedAt :: int
  currentPage :: int

record page =
  pg_v :: int
  pg_id :: string
  pg_submittedAt :: int
  data_list :: "payload list"

definition defaultPageSummary :: "int \<Rightarrow> string \<Rightarrow> string option \<Rightarrow> summary" where
  "defaultPageSummary now ident metadata =
     \<lparr>sm_v = 1, sm_id = ident @ labels_summary, sm_metadata = metadata,
      sm_submittedAt = now, currentPage = 0\<rparr>"

definition getDefaultPageData :: "int \<Rightarrow> string \<Rightarrow> page" where
  "getDefaultPageData now itemId =
     \<lparr>pg_v = 1, pg_id = itemId, pg_submittedAt = now, data_list = []\<rparr>"

text \<open>
  An element as a reader receives it: \<open>indexDataList\<close> adds to the stored value the
  page it was read from and its offset in that page, both as strings, and the list id.
\<close>

record entry =
  val :: payload
  page_id :: string
  sequence_id :: string
  resource_id_parent :: string

text \<open>The pointer \<open>atomicAppend\<close> resolves to: both fields are numbers.\<close>

record append_result =
  r_page_id :: int
  r_sequence_id :: int

text \<open>The pointer a caller hands to \<open>retrieveNextMostRecent\<close>: any two values.\<close>

record cursor =
  c_page_id :: jsval
  c_sequence_id :: jsval

text \<open>
  What \<open>getValidPointer\<close> returns: a page number, and a sequence that is a number or
  \<open>null\<close> (\<open>None\<close>).
\<close>

record valid_pointer =
  p_page_id :: jsnum
  p_sequence_id :: "jsnum option"

section \<open>The key-value store\<close>

text \<open>
  The table holds summary items and data pages under their \<open>id\<close> strings. Errors are
  the store's (\<open>err.code\<close>), \<open>new Error()\<close>, a \<open>TypeError\<close> of the runtime, or a
  thrown string.
\<close>

record table =
  summaries :: "string \<rightharpoonup> summary"
  pages :: "string \<rightharpoonup> page"

datatype error = AwsError string | JsError | TypeError | Thrown string

fun error_code :: "error \<Rightarrow> string option" where
  "error_code (AwsError c) = Some c"
| "error_code _ = None"

text \<open>
  The store's client objects (\<open>dynamoDb\<close>, \<open>dynamoRetriever\<close>, \<open>dynamoIncrementer\<close>)
  are outside this repository; the functions of the module take them as a parameter.
  \<open>put_summary\<close> and \<open>put_page\<close> stand for \<open>dynamoDb.put\<close> with the condition
  \<open>#i <> :val\<close> on the item's id, \<open>update_list_append\<close> for \<open>dynamoDb.update\<close> with
  \<open>SET data_list = list_append(data_list, [value])\<close> returning the new item,
  \<open>get_summary\<close> and \<open>get_page\<close> for \<open>getDynamoItem\<close> (the item, if any), and
  \<open>increment_counter\<close> for \<open>incrementCounter\<close> on the field \<open>currentPage\<close> returning
  the new item.
\<close>

record gateway =
  put_summary :: "summary \<Rightarrow> table \<Rightarrow> (error + unit) \<times> table"
  put_page :: "page \<Rightarrow> table \<Rightarrow> (error + unit) \<times> table"
  update_list_append :: "string \<Rightarrow> payload \<Rightarrow> table \<Rightarrow> (error + page) \<times> table"
  get_summary :: "string \<Rightarrow> table \<Rightarrow> error + summary option"
  get_page :: "string \<Rightarrow> table \<Rightarrow> error + page option"
  increment_counter :: "string \<Rightarrow> int \<Rightarrow> table \<Rightarrow> (error + summary) \<times> table"

text \<open>
  The reference store. The code of the store's clients (the AWS SDK and the module
  \<open>dynamo_data_access\<close>) is not part of the sources; each operation below follows the
  contract of the KV gateway in section 4.1 of the specification.
\<close>

text \<open>
  Modelled from the spec: \<open>PutIfAbsent\<close> on a summary item, missing with the AWS SDK. It
  succeeds if no item has the key and the item becomes present; if the key is present
  it signals \<open>ConditionalCheckFailedException\<close> and does not overwrite.
\<close>

definition dynamo_put_summary :: "summary \<Rightarrow> table \<Rightarrow> (error + unit) \<times> table" where
  "dynamo_put_summary item t =
     (case summaries t (sm_id item) of
        Some _ \<Rightarrow> (Inl (AwsError ''ConditionalCheckFailedException''), t)
      | None \<Rightarrow> (Inr (), t\<lparr>summaries := (summaries t)(sm_id item \<mapsto> item)\<rparr>))"

text \<open>Modelled from the spec: \<open>PutIfAbsent\<close> on a data page, missing with the AWS SDK.\<close>

definition dynamo_put_page :: "page \<Rightarrow> table \<Rightarrow> (error + unit) \<times> table" where
  "dynamo_put_page item t =
     (case pages t (pg_id item) of
        Some _ \<Rightarrow> (Inl (AwsError ''ConditionalCheckFailedException''), t)
      | None \<Rightarrow> (Inr (), t\<lparr>pages := (pages t)(pg_id item \<mapsto> item)\<rparr>))"

text \<open>
  Modelled from the spec: \<open>AppendToList\<close>, missing with the AWS SDK. The append is
  atomic and returns the item with its new list; it signals \<open>ValidationException\<close> if
  the item does not exist.
\<close>

definition dynamo_update_list_append ::
  "string \<Rightarrow> payload \<Rightarrow> table \<Rightarrow> (error + page) \<times> table" where
  "dynamo_update_list_append key x t =
     (case pages t key of
        None \<Rightarrow> (Inl (AwsError ''ValidationException''), t)
      | Some pg \<Rightarrow>
          (Inr (pg\<lparr>data_list := data_list pg @ [x]\<rparr>),
           t\<lparr>pages := (pages t)(key \<mapsto> pg\<lparr>data_list := data_list pg @ [x]\<rparr>)\<rparr>))"

text \<open>
  Modelled from the spec: \<open>Get\<close> of a summary item and of a data page, missing with the
  module \<open>dynamo_data_access\<close>. It returns the item or nothing.
\<close>

definition dynamo_get_summary :: "string \<Rightarrow> table \<Rightarrow> error + summary option" where
  "dynamo_get_summary key t = Inr (summaries t key)"

definition dynamo_get_page :: "string \<Rightarrow> table \<Rightarrow> error + page option" where
  "dynamo_get_page key t = Inr (pages t key)"

text \<open>
  Modelled from the spec: \<open>IncrementIfAtLeast\<close>, missing with the module
  \<open>dynamo_data_access\<close>. The counter advances from \<open>floor\<close> to \<open>floor + 1\<close> only: the
  primitive adds 1 to the field on condition that the field equals \<open>floor\<close>, returns
  the new item, and otherwise signals \<open>ConditionalCheckFailedException\<close>.
\<close>

definition dynamo_increment_counter ::
  "string \<Rightarrow> int \<Rightarrow> table \<Rightarrow> (error + summary) \<times> table" where
  "dynamo_increment_counter key floor t =
     (case summaries t key of
        None \<Rightarrow> (Inl (AwsError ''ConditionalCheckFailedException''), t)
      | Some sm \<Rightarrow>
          if currentPage sm = floor
          then (Inr (sm\<lparr>currentPage := currentPage sm + 1\<rparr>),
                t\<lparr>summaries := (summaries t)(key \<mapsto> sm\<lparr>currentPage := currentPage sm + 1\<rparr>)\<rparr>)
          else (Inl (AwsError ''ConditionalCheckFailedException''), t))"

definition dynamo :: gateway where
  "dynamo =
     \<lparr>put_summary = dynamo_put_summary, put_page = dynamo_put_page,
      update_list_append = dynamo_update_list_append,
      get_summary = dynamo_get_summary, get_page = dynamo_get_page,
      increment_counter = dynamo_increment_counter\<rparr>"

definition empty_table :: table where
  "empty_table = \<lparr>summaries = Map.empty, pages = Map.empty\<rparr>"

section \<open>Creating a list and reading pages\<close>

text \<open>
  \<open>idempotentCreate\<close>: the promise of the conditional put, mapped to the summary
  object by \<open>then\<close>; there is no \<open>catch\<close>, so a rejection of the put is the result.
\<close>

definition idempotentCreate ::
  "gateway \<Rightarrow> int \<Rightarrow> string \<Rightarrow> string option \<Rightarrow> table \<Rightarrow> (error + summary) \<times> table" where
  "idempotentCreate gw now ident metadata t =
     (let summaryObject = defaultPageSummary now ident metadata
      in case put_summary gw summaryObject t of
           (Inl err, t') \<Rightarrow> (Inl err, t')
         | (Inr _, t') \<Rightarrow> (Inr summaryObject, t'))"

text \<open>
  \<open>getPageData(id, pageId, field)\<close> returns the item stored under \<open>id + pageId\<close> or
  \<open>undefined\<close>; it is used on the summary and on data pages.
\<close>

definition getPageData_summary ::
  "gateway \<Rightarrow> string \<Rightarrow> string \<Rightarrow> table \<Rightarrow> error + summary option" where
  "getPageData_summary gw ident pageId t = get_summary gw (ident @ pageId) t"

definition getPageData :: "gateway \<Rightarrow> string \<Rightarrow> string \<Rightarrow> table \<Rightarrow> error + page option" where
  "getPageData gw ident pageId t = get_page gw (ident @ pageId) t"

text \<open>
  \<open>getCurrentPage\<close> reads \<open>data.currentPage\<close>; when the summary is missing \<open>data\<close>
  is \<open>undefined\<close> and the property access raises a \<open>TypeError\<close>.
\<close>

definition getCurrentPage :: "gateway \<Rightarrow> string \<Rightarrow> table \<Rightarrow> error + int" where
  "getCurrentPage gw ident t =
     (case getPageData_summary gw ident labels_summary t of
        Inl err \<Rightarrow> Inl err
      | Inr None \<Rightarrow> Inl TypeError
      | Inr (Some data) \<Rightarrow> Inr (currentPage data))"

definition indexDataList ::
  "payload list option \<Rightarrow> jsnum \<Rightarrow> string \<Rightarrow> entry list option" where
  "indexDataList data_list_opt currentPage_arg parent =
     (case data_list_opt of
        None \<Rightarrow> None
      | Some dl \<Rightarrow>
          Some (map (\<lambda>(i, item).
                  \<lparr>val = item, page_id = number_to_string currentPage_arg,
                   sequence_id = number_to_string (JNum (int i)),
                   resource_id_parent = parent\<rparr>)
                (enumerate 0 dl)))"

text \<open>
  \<open>retrieveDataList\<close>: any failure, the \<open>TypeError\<close> of a missing page included, is
  caught and becomes \<open>undefined\<close> (\<open>None\<close>).
\<close>

definition retrieveDataList :: "gateway \<Rightarrow> string \<Rightarrow> jsnum \<Rightarrow> table \<Rightarrow> entry list option" where
  "retrieveDataList gw ident pageId t =
     (case getPageData gw ident (''_'' @ number_to_string pageId) t of
        Inl err \<Rightarrow> None
      | Inr None \<Rightarrow> None
      | Inr (Some data) \<Rightarrow> indexDataList (Some (data_list data)) pageId ident)"

section \<open>The retrieval walk\<close>

text \<open>
  The body of \<open>then\<close> in \<open>recursivelyRetrieveData\<close> up to the test on the number of
  items: a non-empty page is cut at \<open>fromSequence\<close> when that is truthy, reversed and
  appended to \<open>retrievedData\<close>.
\<close>

definition addPage :: "entry list option \<Rightarrow> jsnum option \<Rightarrow> entry list \<Rightarrow> entry list" where
  "addPage data_list_opt fromSequence retrievedData =
     (case data_list_opt of
        None \<Rightarrow> retrievedData
      | Some dl \<Rightarrow>
          if length dl > 0
          then retrievedData @ rev
                 (case fromSequence of
                    Some (JNum k) \<Rightarrow>
                      if truthy_num (JNum k) then js_splice k (int (length dl) - k) dl else dl
                  | _ \<Rightarrow> dl)
          else retrievedData)"

text \<open>
  \<open>recursivelyRetrieveData\<close> with the two variables it closes over, \<open>fromSequence\<close> and
  \<open>retrievedData\<close>, as arguments; the result is the \<open>retrievedData\<close> at the moment
  \<open>completedCallback\<close> is called. The page number can be \<open>NaN\<close>, for which the test
  \<open>currentPage < 0\<close> never holds: the walk need not end, and \<open>None\<close> is the walk that
  never calls back.
\<close>

partial_function (option) recursivelyRetrieveData ::
  "gateway \<Rightarrow> table \<Rightarrow> string \<Rightarrow> int \<Rightarrow> jsnum \<Rightarrow> jsnum option \<Rightarrow> entry list \<Rightarrow> entry list option"
where
  "recursivelyRetrieveData gw t ident numberOfItems currentPage_arg fromSequence retrievedData =
     (if js_lt currentPage_arg (JNum 0) then Some retrievedData
      else
        let retrievedData' =
              addPage (retrieveDataList gw ident currentPage_arg t) fromSequence retrievedData
        in if int (length retrievedData') < numberOfItems
           then recursivelyRetrieveData gw t ident numberOfItems
                  (js_minus currentPage_arg 1) None retrievedData'
           else Some retrievedData')"

declare recursivelyRetrieveData.simps [code]

definition retrieveNElement ::
  "gateway \<Rightarrow> string \<Rightarrow> jsnum \<Rightarrow> jsnum option \<Rightarrow> int \<Rightarrow> table \<Rightarrow> entry list option" where
  "retrieveNElement gw ident fromPage fromSequence numberOfItems t =
     (case recursivelyRetrieveData gw t ident numberOfItems fromPage fromSequence [] of
        None \<Rightarrow> None
      | Some retrievedData \<Rightarrow>
          Some (if int (length retrievedData) > numberOfItems
                then js_slice0 numberOfItems retrievedData
                else retrievedData))"

text \<open>
  The two public readers. \<open>Inl\<close> is a rejection or an exception before the walk starts,
  \<open>Inr None\<close> a walk that never calls back, \<open>Inr (Some xs)\<close> the call \<open>callback(xs)\<close>.
\<close>

definition retrieveLastMostRecent ::
  "gateway \<Rightarrow> string \<Rightarrow> int \<Rightarrow> table \<Rightarrow> error + entry list option" where
  "retrieveLastMostRecent gw ident numberOfItems t =
     (case getCurrentPage gw ident t of
        Inl err \<Rightarrow> Inl err
      | Inr cp \<Rightarrow> Inr (retrieveNElement gw ident (JNum cp) None numberOfItems t))"

definition getValidPointer :: "cursor \<Rightarrow> valid_pointer" where
  "getValidPointer startAfterPointer =
     (let currentPageToStartWith = parseInt (c_page_id startAfterPointer);
          currentSequenceToStartWith = parseInt (c_sequence_id startAfterPointer);
          (seq1, page1) =
             (if js_le currentSequenceToStartWith (JNum 0)
              then (None, js_minus currentPageToStartWith 1)
              else (Some currentSequenceToStartWith, currentPageToStartWith));
          (page2, seq2) =
             (if js_lt page1 (JNum 0) then (JNum 0, Some (JNum 0)) else (page1, seq1))
      in \<lparr>p_page_id = page2, p_sequence_id = seq2\<rparr>)"

text \<open>
  The guard \<open>!p || !p.page_id || !p.sequence_id\<close> is evaluated left to right; an
  absent pointer is \<open>None\<close>.
\<close>

definition retrieveNextMostRecent ::
  "gateway \<Rightarrow> string \<Rightarrow> cursor option \<Rightarrow> int \<Rightarrow> table \<Rightarrow> error + entry list option" where
  "retrieveNextMostRecent gw ident startAfterPointer numberOfItems t =
     (case startAfterPointer of
        None \<Rightarrow> Inl (Thrown ''No valid pointer has been set'')
      | Some c \<Rightarrow>
          if truthy (c_page_id c) then
            if truthy (c_sequence_id c) then
              let pointer = getValidPointer c
              in Inr (retrieveNElement gw ident (p_page_id pointer) (p_sequence_id pointer)
                        numberOfItems t)
            else Inl (Thrown ''No valid pointer has been set'')
          else Inl (Thrown ''No valid pointer has been set''))"

section \<open>Appending\<close>

definition appendDataToPage ::
  "gateway \<Rightarrow> string \<Rightarrow> int \<Rightarrow> payload \<Rightarrow> table \<Rightarrow> (error + nat) \<times> table" where
  "appendDataToPage gw ident pageId data t =
     (let itemId = ident @ ''_'' @ number_to_string (JNum pageId)
      in case update_list_append gw itemId data t of
           (Inl err, t') \<Rightarrow> (Inl err, t')
         | (Inr attributes, t') \<Rightarrow> (Inr (length (data_list attributes)), t'))"

text \<open>
  \<open>createNewPage\<close> swallows \<open>ConditionalCheckFailedException\<close> and turns any other
  failure into \<open>new Error()\<close>.
\<close>

definition createNewPage ::
  "gateway \<Rightarrow> int \<Rightarrow> string \<Rightarrow> int \<Rightarrow> table \<Rightarrow> (error + unit) \<times> table" where
  "createNewPage gw now ident pageId t =
     (let itemId = ident @ ''_'' @ number_to_string (JNum pageId);
          pageData = getDefaultPageData now itemId
      in case put_page gw pageData t of
           (Inr _, t') \<Rightarrow> (Inr (), t')
         | (Inl err, t') \<Rightarrow>
             if error_code err = Some ''ConditionalCheckFailedException''
             then (Inr (), t')
             else (Inl JsError, t'))"

text \<open>
  \<open>increasePageCounter\<close> resolves to the new counter, or to \<open>undefined\<close> (\<open>None\<close>) when
  the condition of the increment failed.
\<close>

definition increasePageCounter ::
  "gateway \<Rightarrow> string \<Rightarrow> int \<Rightarrow> table \<Rightarrow> (error + int option) \<times> table" where
  "increasePageCounter gw ident currentCounterValue t =
     (case increment_counter gw (ident @ labels_summary) currentCounterValue t of
        (Inr attributes, t') \<Rightarrow> (Inr (Some (currentPage attributes)), t')
      | (Inl err, t') \<Rightarrow>
          if error_code err = Some ''ConditionalCheckFailedException''
          then (Inr None, t')
          else (Inl JsError, t'))"

text \<open>
  The function passed to \<open>then\<close> in \<open>atomicAppendImpl\<close>, run when the append
  succeeded with \<open>numberOfElementInPage\<close> elements in the page.
\<close>

definition appendSuccessful ::
  "gateway \<Rightarrow> config \<Rightarrow> int \<Rightarrow> string \<Rightarrow> int \<Rightarrow> nat \<Rightarrow> table
     \<Rightarrow> (error + append_result) \<times> table" where
  "appendSuccessful gw cfg now ident currentPage_arg numberOfElementInPage t =
     (let result = \<lparr>r_page_id = currentPage_arg,
                     r_sequence_id = int numberOfElementInPage - 1\<rparr>
      in if js_ge (JNum (int numberOfElementInPage)) (maxElementPerPage cfg) then
           (case increasePageCounter gw ident currentPage_arg t of
              (Inl err, t') \<Rightarrow> (Inl err, t')
            | (Inr None, t') \<Rightarrow> (Inr result, t')
            | (Inr (Some incrementedCurrentPage), t') \<Rightarrow>
                if incrementedCurrentPage \<noteq> 0 \<and> incrementedCurrentPage > currentPage_arg
                then (case createNewPage gw now ident incrementedCurrentPage t' of
                        (Inl err, t'') \<Rightarrow> (Inl err, t'')
                      | (Inr _, t'') \<Rightarrow> (Inr result, t''))
                else (Inr result, t'))
         else (Inr result, t))"

text \<open>
  \<open>atomicAppendImpl\<close> is \<open>appendDataToPage(...).then(...).catch(...)\<close>: the handler of
  \<open>catch\<close> sees a failure of the append and a failure of the \<open>then\<close> function alike.
  On \<open>ValidationException\<close> it creates the page and calls \<open>atomicAppendImpl\<close> with
  \<open>attempt + 1\<close>; the call with \<open>attempt > 1\<close> throws.
\<close>

function atomicAppendImpl ::
  "gateway \<Rightarrow> config \<Rightarrow> int \<Rightarrow> string \<Rightarrow> int \<Rightarrow> payload \<Rightarrow> nat \<Rightarrow> table
     \<Rightarrow> (error + append_result) \<times> table" where
  "atomicAppendImpl gw cfg now ident currentPage_arg x attempt t =
     (if attempt > 1 then (Inl JsError, t)
      else
        case (case appendDataToPage gw ident currentPage_arg x t of
                (Inl err, t1) \<Rightarrow> (Inl err, t1)
              | (Inr numberOfElementInPage, t1) \<Rightarrow>
                  appendSuccessful gw cfg now ident currentPage_arg numberOfElementInPage t1) of
          (Inr result, t2) \<Rightarrow> (Inr result, t2)
        | (Inl err, t2) \<Rightarrow>
            if error_code err = Some ''ValidationException''
            then (case createNewPage gw now ident currentPage_arg t2 of
                    (Inl err', t3) \<Rightarrow> (Inl err', t3)
                  | (Inr _, t3) \<Rightarrow>
                      atomicAppendImpl gw cfg now ident currentPage_arg x (attempt + 1) t3)
            else (Inl JsError, t2))"
  by pat_completeness auto
termination
  by (relation "measure (\<lambda>(gw, cfg, now, ident, cp, x, attempt, t). 2 - attempt)") auto

declare atomicAppendImpl.simps [simp del]

definition atomicAppend ::
  "gateway \<Rightarrow> config \<Rightarrow> int \<Rightarrow> string \<Rightarrow> payload \<Rightarrow> table
     \<Rightarrow> (error + append_result) \<times> table" where
  "atomicAppend gw cfg now ident x t =
     (case getCurrentPage gw ident t of
        Inl err \<Rightarrow> (Inl err, t)
      | Inr cp \<Rightarrow> atomicAppendImpl gw cfg now ident cp x 0 t)"

section \<open>Concurrent callers\<close>

text \<open>
  A call of \<open>atomicAppend\<close> is suspended exactly at its requests to the store. A call
  in flight is therefore one of: about to read the summary; about to append to page
  \<open>p\<close> (entering \<open>atomicAppendImpl\<close> with some \<open>attempt\<close>); about to create the
  missing page \<open>p\<close> in the handler of \<open>catch\<close>; about to increase the counter; about
  to create the next page; or finished with its result. \<open>call_step\<close> runs one call up
  to its next request.
\<close>

datatype call =
    Start payload
  | Appending int payload nat
  | Recovering int payload nat
  | Increasing int append_result
  | Creating int append_result
  | Finished "error + append_result"

fun call_step :: "gateway \<Rightarrow> config \<Rightarrow> int \<Rightarrow> string \<Rightarrow> call \<Rightarrow> table \<Rightarrow> call \<times> table" where
  "call_step gw cfg now ident (Start x) t =
     (case getCurrentPage gw ident t of
        Inl err \<Rightarrow> (Finished (Inl err), t)
      | Inr cp \<Rightarrow> (Appending cp x 0, t))"
| "call_step gw cfg now ident (Appending cp x attempt) t =
     (if attempt > 1 then (Finished (Inl JsError), t)
      else case appendDataToPage gw ident cp x t of
             (Inl err, t1) \<Rightarrow>
               if error_code err = Some ''ValidationException''
               then (Recovering cp x attempt, t1)
               else (Finished (Inl JsError), t1)
           | (Inr numberOfElementInPage, t1) \<Rightarrow>
               if js_ge (JNum (int numberOfElementInPage)) (maxElementPerPage cfg)
               then (Increasing cp \<lparr>r_page_id = cp,
                                     r_sequence_id = int numberOfElementInPage - 1\<rparr>, t1)
               else (Finished (Inr \<lparr>r_page_id = cp,
                                     r_sequence_id = int numberOfElementInPage - 1\<rparr>), t1))"
| "call_step gw cfg now ident (Recovering cp x attempt) t =
     (case createNewPage gw now ident cp t of
        (Inl err, t') \<Rightarrow> (Finished (Inl err), t')
      | (Inr _, t') \<Rightarrow> (Appending cp x (attempt + 1), t'))"
| "call_step gw cfg now ident (Increasing cp result) t =
     (case increasePageCounter gw ident cp t of
        (Inl err, t') \<Rightarrow> (Finished (Inl JsError), t')
      | (Inr None, t') \<Rightarrow> (Finished (Inr result), t')
      | (Inr (Some incrementedCurrentPage), t') \<Rightarrow>
          if incrementedCurrentPage \<noteq> 0 \<and> incrementedCurrentPage > cp
          then (Creating incrementedCurrentPage result, t')
          else (Finished (Inr result), t'))"
| "call_step gw cfg now ident (Creating q result) t =
     (case createNewPage gw now ident q t of
        (Inl err, t') \<Rightarrow> (Finished (Inl JsError), t')
      | (Inr _, t') \<Rightarrow> (Finished (Inr result), t'))"
| "call_step gw cfg now ident (Finished r) t = (Finished r, t)"

text \<open>
  The system is the table and the calls in flight. A step starts a new call of
  \<open>atomicAppend\<close> or lets any one call perform its next request, at any clock value.
\<close>

inductive sys_step ::
  "gateway \<Rightarrow> config \<Rightarrow> string \<Rightarrow> table \<times> call list \<Rightarrow> table \<times> call list \<Rightarrow> bool"
  for gw :: gateway and cfg :: config and ident :: string
where
  spawn: "sys_step gw cfg ident (t, cs) (t, cs @ [Start x])"
| advance: "i < length cs \<Longrightarrow> call_step gw cfg now ident (cs ! i) t = (c', t')
             \<Longrightarrow> sys_step gw cfg ident (t, cs) (t', cs[i := c'])"

section \<open>Vocabulary of the properties\<close>

definition summary_key :: "string \<Rightarrow> string" where
  "summary_key ident = ident @ labels_summary"

definition page_key :: "string \<Rightarrow> int \<Rightarrow> string" where
  "page_key ident p = ident @ ''_'' @ number_to_string (JNum p)"

text \<open>A table in which a data page is blank: the item is not in the store.\<close>

definition delete_page :: "string \<Rightarrow> int \<Rightarrow> table \<Rightarrow> table" where
  "delete_page ident p t = t\<lparr>pages := (pages t)(page_key ident p := None)\<rparr>"

text \<open>
  The position of an element as a client reads it from the element, with \<open>parseInt\<close>
  as \<open>getValidPointer\<close> does, and the order "strictly more recent": a later page, or
  the same page and a higher offset.
\<close>

definition position :: "entry \<Rightarrow> jsnum \<times> jsnum" where
  "position e = (parseInt (JString (page_id e)), parseInt (JString (sequence_id e)))"

fun more_recent :: "jsnum \<times> jsnum \<Rightarrow> jsnum \<times> jsnum \<Rightarrow> bool" where
  "more_recent (p, k) (q, l) = (js_lt q p \<or> (p = q \<and> js_lt l k))"

text \<open>The cursor a client builds from an element it received, and from the result of an append.\<close>

definition cursor_of_entry :: "entry \<Rightarrow> cursor" where
  "cursor_of_entry e = \<lparr>c_page_id = JString (page_id e), c_sequence_id = JString (sequence_id e)\<rparr>"

definition cursor_of_result :: "append_result \<Rightarrow> cursor" where
  "cursor_of_result r =
     \<lparr>c_page_id = JNumber (JNum (r_page_id r)), c_sequence_id = JNumber (JNum (r_sequence_id r))\<rparr>"

text \<open>Appending the values of a list one after the other, stopping at the first failure.\<close>

fun appendAll :: "gateway \<Rightarrow> config \<Rightarrow> int \<Rightarrow> string \<Rightarrow> payload list \<Rightarrow> table \<Rightarrow> table" where
  "appendAll gw cfg now ident [] t = t"
| "appendAll gw cfg now ident (x # xs) t =
     (case atomicAppend gw cfg now ident x t of
        (Inl err, t') \<Rightarrow> t'
      | (Inr _, t') \<Rightarrow> appendAll gw cfg now ident xs t')"

text \<open>
  The states of one list under a single caller on the reference store: the list is
  created in a table that holds none of its pages, then values are appended one call
  after the other.
\<close>

inductive seq_reachable :: "config \<Rightarrow> string \<Rightarrow> table \<Rightarrow> bool"
  for cfg :: config and ident :: string
where
  created: "(\<And>p. pages t0 (page_key ident p) = None)
              \<Longrightarrow> idempotentCreate dynamo now ident metadata t0 = (Inr s, t)
              \<Longrightarrow> seq_reachable cfg ident t"
| appended: "seq_reachable cfg ident t
              \<Longrightarrow> atomicAppend dynamo cfg now ident x t = (Inr r, t')
              \<Longrightarrow> seq_reachable cfg ident t'"

text \<open>
  A store that answers every list append with \<open>ValidationException\<close> and behaves as
  the reference store otherwise: a store on which the append after the creation of the
  page fails again.
\<close>

definition refusing_appends :: gateway where
  "refusing_appends =
     dynamo\<lparr>update_list_append := (\<lambda>key x t. (Inl (AwsError ''ValidationException''), t))\<rparr>"

text \<open>
  The configuration and the list of the repository's test suite: two elements per page,
  a list \<open>L\<close> created in an empty table.
\<close>

definition test_config :: config where
  "test_config =
     configureMaximumNumberOfElementPerPage (Some (JNum 2))
       (configureDynamoDB ''eu-west-3'' ''testlinkedlist'' initial_config)"

definition created_list :: table where
  "created_list = snd (idempotentCreate dynamo 0 ''L'' None empty_table)"

text \<open>The test suite's list after its five appends.\<close>

definition test_list :: table where
  "test_list = appendAll dynamo test_config 0 ''L''
                 [''Hello0'', ''Hello1'', ''Hello2'', ''Hello3'', ''Hello4''] created_list"

text \<open>
  The elements a walk from page \<open>p\<close> meets when it is not stopped by the number of
  items: the pages \<open>p\<close>, \<open>p - 1\<close>, ..., \<open>0\<close>, each one as \<open>addPage\<close> adds it, the first
  with the cut at \<open>fromSequence\<close>.
\<close>

definition older_pages :: "gateway \<Rightarrow> table \<Rightarrow> string \<Rightarrow> int \<Rightarrow> entry list" where
  "older_pages gw t ident p =
     concat (map (\<lambda>q. addPage (retrieveDataList gw ident (JNum q) t) None []) (rev [0..p]))"

definition complete_walk :: "gateway \<Rightarrow> table \<Rightarrow> string \<Rightarrow> int \<Rightarrow> jsnum option \<Rightarrow> entry list" where
  "complete_walk gw t ident p fromSequence =
     (if p < 0 then []
      else addPage (retrieveDataList gw ident (JNum p) t) fromSequence []
           @ older_pages gw t ident (p - 1))"

text \<open>
  The invariant of the states of a single caller, for a page size \<open>m\<close>: the summary
  exists, its counter is not negative, no page above the current one exists, and the
  current page, if it exists, holds fewer than \<open>m\<close> elements.
\<close>

definition seq_inv :: "int \<Rightarrow> string \<Rightarrow> table \<Rightarrow> bool" where
  "seq_inv m ident t =
     (case summaries t (summary_key ident) of
        None \<Rightarrow> False
      | Some sm \<Rightarrow>
          0 \<le> currentPage sm
          \<and> (\<forall>q. currentPage sm < q \<longrightarrow> pages t (page_key ident q) = None)
          \<and> (case pages t (page_key ident (currentPage sm)) of
                None \<Rightarrow> True
              | Some pg \<Rightarrow> int (length (data_list pg)) < m))"

text \<open>
  A schedule is the list of the calls that move, in order; \<open>run_schedule\<close> performs it
  (an index that names no call is skipped). The created list with two calls of
  \<open>atomicAppend\<close> about to start is the system the example interleaving runs from.
\<close>

fun run_schedule ::
  "gateway \<Rightarrow> config \<Rightarrow> int \<Rightarrow> string \<Rightarrow> nat list \<Rightarrow> table \<times> call list \<Rightarrow> table \<times> call list" where
  "run_schedule gw cfg now ident [] st = st"
| "run_schedule gw cfg now ident (i # sched) (t, cs) =
     (if i < length cs
      then (case call_step gw cfg now ident (cs ! i) t of
              (c', t') \<Rightarrow> run_schedule gw cfg now ident sched (t', cs[i := c']))
      else run_schedule gw cfg now ident sched (t, cs))"

definition two_calls :: "table \<times> call list" where
  "two_calls = (created_list, [Start ''Hello0'', Start ''Hello1''])"

text \<open>
  The result of a retrieval as the specification words it, from the contents of the
  table alone: the items of page \<open>p\<close> are the values of its \<open>data_list\<close>, each with the
  page number, its offset in the list and the list id (a page that does not exist has
  none); the most recent first are the pages from \<open>p\<close> down to page 0, each reversed,
  one after the other.
\<close>

definition spec_page_items :: "table \<Rightarrow> string \<Rightarrow> int \<Rightarrow> entry list" where
  "spec_page_items t ident p =
     (case pages t (page_key ident p) of
        None \<Rightarrow> []
      | Some pg \<Rightarrow>
          map (\<lambda>i. \<lparr>val = data_list pg ! i, page_id = number_to_string (JNum p),
                     sequence_id = number_to_string (JNum (int i)),
                     resource_id_parent = ident\<rparr>)
              [0..<length (data_list pg)])"

definition spec_most_recent_first :: "table \<Rightarrow> string \<Rightarrow> int \<Rightarrow> entry list" where
  "spec_most_recent_first t ident p =
     concat (map (\<lambda>q. rev (spec_page_items t ident q)) (rev [0..p]))"

section \<open>Configuration\<close>

text \<open>
  C10. \<open>configureMaximumNumberOfElementPerPage\<close> leaves the configuration as it is when
  the argument is omitted, \<open>0\<close> or \<open>NaN\<close>, so that the default 50 stays when it was never
  set; any other number \<open>n\<close>, negative ones included, is stored as it is. The stored
  value is the threshold of the rollover: after an append that left \<open>k\<close> elements in
  the page nothing more is done when \<open>k < n\<close>, and on the reference store the counter
  of a list whose current page is \<open>cp\<close> is advanced to \<open>cp + 1\<close> when \<open>n \<le> k\<close>.
\<close>

theorem configure_maximum_truthy_verbatim:
  "configureMaximumNumberOfElementPerPage None cfg = cfg
   \<and> configureMaximumNumberOfElementPerPage (Some (JNum 0)) cfg = cfg
   \<and> configureMaximumNumberOfElementPerPage (Some JNaN) cfg = cfg
   \<and> maxElementPerPage (configureMaximumNumberOfElementPerPage (Some (JNum 0)) initial_config)
       = JNum 50
   \<and> (n \<noteq> 0 \<longrightarrow>
        configureMaximumNumberOfElementPerPage (Some (JNum n)) cfg
          = cfg\<lparr>maxElementPerPage := JNum n\<rparr>)
   \<and> (n \<noteq> 0 \<and> int k < n \<longrightarrow>
        appendSuccessful gw (configureMaximumNumberOfElementPerPage (Some (JNum n)) cfg)
            now ident cp k t
          = (Inr \<lparr>r_page_id = cp, r_sequence_id = int k - 1\<rparr>, t))
   \<and> (n \<noteq> 0 \<and> n \<le> int k \<and> getCurrentPage dynamo ident t = Inr cp \<longrightarrow>
        getCurrentPage dynamo ident
          (snd (appendSuccessful dynamo
                  (configureMaximumNumberOfElementPerPage (Some (JNum n)) cfg)
                  now ident cp k t))
          = Inr (cp + 1))"
  apply (intro conjI impI)
        apply (simp_all add: configureMaximumNumberOfElementPerPage_def initial_config_def
                 appendSuccessful_def)
  apply (auto simp: getCurrentPage_def getPageData_summary_def dynamo_def
           dynamo_get_summary_def increasePageCounter_def dynamo_increment_counter_def
           createNewPage_def dynamo_put_page_def Let_def
         split: option.splits sum.splits prod.splits if_splits)
  done

theorem configure_maximum_truthy_verbatim_witness:
  "configureMaximumNumberOfElementPerPage (Some (JNum (- 3))) initial_config
     = initial_config\<lparr>maxElementPerPage := JNum (- 3)\<rparr>
   \<and> getCurrentPage dynamo ''L''
        (snd (appendSuccessful dynamo
                (configureMaximumNumberOfElementPerPage (Some (JNum (- 3))) initial_config)
                0 ''L'' 0 1 created_list))
       = Inr 1"
proof -
  have h: "getCurrentPage dynamo ''L'' created_list = Inr 0"
    by code_simp
  show ?thesis
    using configure_maximum_truthy_verbatim
            [where n = "- 3" and k = 1 and cp = 0 and ident = "''L''" and t = created_list
               and cfg = initial_config and now = 0] h
    by auto
qed

section \<open>Creating twice\<close>

text \<open>
  C2. The claim is that a second \<open>idempotentCreate\<close> on the same id succeeds and returns
  a summary view. The code does not do so: the first call on the empty reference store
  returns the summary object, and the second call is rejected with the store's
  \<open>ConditionalCheckFailedException\<close>, which \<open>idempotentCreate\<close> does not catch
  (\<open>createNewPage\<close> catches the same error of the same conditional put).
\<close>

theorem idempotentCreate_second_call_rejected:
  "fst (idempotentCreate dynamo 0 ''L'' None empty_table)
     = Inr (defaultPageSummary 0 ''L'' None)
   \<and> fst (idempotentCreate dynamo 1 ''L'' None created_list)
     = Inl (AwsError ''ConditionalCheckFailedException'')"
  by code_simp

section \<open>Cursors\<close>

text \<open>
  What the code does with a cursor: \<open>retrieveNextMostRecent\<close> throws exactly when the
  pointer is absent or one of its two fields is not truthy, and \<open>getValidPointer\<close>, on
  fields that parse to integers, steps to the previous page when the sequence is not
  positive and clamps a negative page to page 0 and sequence 0.
\<close>

lemma retrieveNextMostRecent_rejects_iff:
  "(\<exists>e. retrieveNextMostRecent gw ident startAfterPointer numberOfItems t = Inl e)
     = (case startAfterPointer of
          None \<Rightarrow> True
        | Some c \<Rightarrow> \<not> (truthy (c_page_id c) \<and> truthy (c_sequence_id c)))"
  by (auto simp: retrieveNextMostRecent_def Let_def split: option.splits)

lemma getValidPointer_numbers:
  assumes "parseInt (c_page_id c) = JNum p" and "parseInt (c_sequence_id c) = JNum k"
  shows "getValidPointer c
           = (if k \<le> 0
              then (if p - 1 < 0 then \<lparr>p_page_id = JNum 0, p_sequence_id = Some (JNum 0)\<rparr>
                    else \<lparr>p_page_id = JNum (p - 1), p_sequence_id = None\<rparr>)
              else (if p < 0 then \<lparr>p_page_id = JNum 0, p_sequence_id = Some (JNum 0)\<rparr>
                    else \<lparr>p_page_id = JNum p, p_sequence_id = Some (JNum k)\<rparr>))"
  using assms by (simp add: getValidPointer_def Let_def)

text \<open>
  C9. The claim is that every cursor that carries a page\_id and a sequence\_id is
  accepted. The code tests the two fields for truthiness, and the number \<open>0\<close> is not
  truthy: the third append of the test list returns the pointer (page 1, sequence 0),
  both numbers, and \<open>retrieveNextMostRecent\<close> throws on the cursor made of them. The
  same position written with the strings \<open>'1'\<close> and \<open>'0'\<close>, as the elements read from
  the list carry it, is accepted.
\<close>

theorem retrieveNextMostRecent_rejects_numeric_zero:
  "fst (atomicAppend dynamo test_config 0 ''L'' ''Hello2''
          (appendAll dynamo test_config 0 ''L'' [''Hello0'', ''Hello1''] created_list))
     = Inr \<lparr>r_page_id = 1, r_sequence_id = 0\<rparr>
   \<and> retrieveNextMostRecent dynamo ''L''
        (Some (cursor_of_result \<lparr>r_page_id = 1, r_sequence_id = 0\<rparr>)) 300
        (appendAll dynamo test_config 0 ''L'' [''Hello0'', ''Hello1'', ''Hello2''] created_list)
     = Inl (Thrown ''No valid pointer has been set'')
   \<and> retrieveNextMostRecent dynamo ''L''
        (Some \<lparr>c_page_id = JString ''1'', c_sequence_id = JString ''0''\<rparr>) 300
        (appendAll dynamo test_config 0 ''L'' [''Hello0'', ''Hello1'', ''Hello2''] created_list)
     = Inr (Some [\<lparr>val = ''Hello1'', page_id = ''0'', sequence_id = ''1'',
                    resource_id_parent = ''L''\<rparr>,
                  \<lparr>val = ''Hello0'', page_id = ''0'', sequence_id = ''0'',
                    resource_id_parent = ''L''\<rparr>])"
  by code_simp

text \<open>
  C8. The claim is that a cursor at the first element of page 0 never gets back the
  elements at or after the cursor. \<open>getValidPointer\<close> does clamp that cursor to page 0
  and sequence 0, but the walk cuts the page only when the sequence is truthy, and \<open>0\<close>
  is not: with two elements in page 0, the cursor of the first one gets both back.
\<close>

theorem cursor_at_head_returns_whole_page:
  "getValidPointer \<lparr>c_page_id = JString ''0'', c_sequence_id = JString ''0''\<rparr>
     = \<lparr>p_page_id = JNum 0, p_sequence_id = Some (JNum 0)\<rparr>
   \<and> retrieveNextMostRecent dynamo ''L''
        (Some \<lparr>c_page_id = JString ''0'', c_sequence_id = JString ''0''\<rparr>) 300
        (appendAll dynamo test_config 0 ''L'' [''Hello0'', ''Hello1''] created_list)
     = Inr (Some [\<lparr>val = ''Hello1'', page_id = ''0'', sequence_id = ''1'',
                    resource_id_parent = ''L''\<rparr>,
                  \<lparr>val = ''Hello0'', page_id = ''0'', sequence_id = ''0'',
                    resource_id_parent = ''L''\<rparr>])"
  by code_simp

text \<open>
  C4. The claim is that the elements after the cursor of the most recent element do not
  overlap with that element. On a list with a single element the code returns the same
  element twice: \<open>retrieveLastMostRecent\<close> with 1 returns it, and
  \<open>retrieveNextMostRecent\<close> with the cursor built from it returns it again.
\<close>

theorem cursor_round_trip_overlaps_on_single_element:
  "retrieveLastMostRecent dynamo ''L'' 1
       (appendAll dynamo test_config 0 ''L'' [''Hello0''] created_list)
     = Inr (Some [\<lparr>val = ''Hello0'', page_id = ''0'', sequence_id = ''0'',
                    resource_id_parent = ''L''\<rparr>])
   \<and> retrieveNextMostRecent dynamo ''L''
        (Some (cursor_of_entry \<lparr>val = ''Hello0'', page_id = ''0'', sequence_id = ''0'',
                                 resource_id_parent = ''L''\<rparr>)) 1
        (appendAll dynamo test_config 0 ''L'' [''Hello0''] created_list)
     = Inr (Some [\<lparr>val = ''Hello0'', page_id = ''0'', sequence_id = ''0'',
                    resource_id_parent = ''L''\<rparr>])"
  by code_simp

section \<open>Numbers as strings\<close>

text \<open>\<open>parseInt\<close> reads back the string of an integer, so the strings of two integers differ.\<close>

lemma digit_char_cases:
  assumes "d < 10"
  shows "digit_char d \<in> set ''0123456789''"
proof -
  have e: "digit_char 0 = CHR ''0''" "digit_char 1 = CHR ''1''" "digit_char 2 = CHR ''2''"
    "digit_char 3 = CHR ''3''" "digit_char 4 = CHR ''4''" "digit_char 5 = CHR ''5''"
    "digit_char 6 = CHR ''6''" "digit_char 7 = CHR ''7''" "digit_char 8 = CHR ''8''"
    "digit_char 9 = CHR ''9''"
    by code_simp+
  from assms have "d = 0 \<or> d = 1 \<or> d = 2 \<or> d = 3 \<or> d = 4 \<or> d = 5 \<or> d = 6 \<or> d = 7 \<or> d = 8 \<or> d = 9"
    by arith
  then show ?thesis using e by auto
qed

lemma digit_val_digit_char: "d < 10 \<Longrightarrow> digit_val (digit_char d) = Some d"
  by (simp add: digit_val_def digit_char_def)

lemma decimal_char_props:
  assumes "c \<in> set ''0123456789''"
  shows "\<not> is_space c" and "is_digit_in 10 c" and "c \<noteq> CHR ''-''" and "c \<noteq> CHR ''+''"
    and "c \<noteq> CHR ''x''" and "c \<noteq> CHR ''X''"
  using assms by (auto simp: is_space_def is_digit_in_def digit_val_def)

lemma nat_to_string_chars: "set (nat_to_string n) \<subseteq> set ''0123456789''"
proof (induction n rule: nat_to_string.induct)
  case (1 n)
  show ?case
  proof (cases "n < 10")
    case True
    then show ?thesis using digit_char_cases [of n] by (subst nat_to_string.simps) simp
  next
    case False
    then show ?thesis using 1 digit_char_cases [of "n mod 10"]
      by (subst nat_to_string.simps) simp
  qed
qed

lemma nat_to_string_nonempty: "nat_to_string n \<noteq> []"
  by (subst nat_to_string.simps) simp

lemma digits_value_snoc:
  "digits_value r (ds @ [c])
     = (case digit_val c of Some d \<Rightarrow> digits_value r ds * r + d | None \<Rightarrow> digits_value r ds)"
  by (simp add: digits_value_def split: option.splits)

lemma digits_value_nat_to_string: "digits_value 10 (nat_to_string n) = n"
proof (induction n rule: nat_to_string.induct)
  case (1 n)
  show ?case
  proof (cases "n < 10")
    case True
    then show ?thesis
      by (subst nat_to_string.simps) (simp add: digits_value_def digit_val_digit_char)
  next
    case False
    then show ?thesis using 1
      by (subst nat_to_string.simps) (simp add: digits_value_snoc digit_val_digit_char)
  qed
qed

lemma decimal_string_scan:
  assumes "set s \<subseteq> set ''0123456789''" and "s \<noteq> []"
  shows "dropWhile is_space s = s" and "take 1 s \<noteq> ''-''" and "take 1 s \<noteq> ''+''"
    and "take 2 s \<noteq> ''0x''" and "take 2 s \<noteq> ''0X''" and "takeWhile (is_digit_in 10) s = s"
proof -
  from assms obtain c r where s: "s = c # r" by (cases s) auto
  with assms have c: "c \<in> set ''0123456789''" by auto
  show "dropWhile is_space s = s" using s decimal_char_props(1) [OF c] by simp
  show "take 1 s \<noteq> ''-''" using s decimal_char_props(3) [OF c] by simp
  show "take 1 s \<noteq> ''+''" using s decimal_char_props(4) [OF c] by simp
  show "takeWhile (is_digit_in 10) s = s"
    using assms(1) decimal_char_props(2) by (intro takeWhile_eq_all_conv [THEN iffD2]) blast
  show "take 2 s \<noteq> ''0x''"
  proof (cases r)
    case Nil then show ?thesis using s by simp
  next
    case (Cons d r')
    with assms s have "d \<in> set ''0123456789''" by auto
    from decimal_char_props(5) [OF this] show ?thesis using s Cons by simp
  qed
  show "take 2 s \<noteq> ''0X''"
  proof (cases r)
    case Nil then show ?thesis using s by simp
  next
    case (Cons d r')
    with assms s have "d \<in> set ''0123456789''" by auto
    from decimal_char_props(6) [OF this] show ?thesis using s Cons by simp
  qed
qed

lemma parseInt_string_nat_to_string: "parseInt_string (nat_to_string n) = JNum (int n)"
  using decimal_string_scan [OF nat_to_string_chars nat_to_string_nonempty, of n]
  by (simp add: parseInt_string_def Let_def digits_value_nat_to_string nat_to_string_nonempty
        del: takeWhile_eq_all_conv)

lemma parseInt_string_minus_nat_to_string:
  "parseInt_string (CHR ''-'' # nat_to_string n) = JNum (- int n)"
  using decimal_string_scan [OF nat_to_string_chars nat_to_string_nonempty, of n]
  by (simp add: parseInt_string_def Let_def digits_value_nat_to_string nat_to_string_nonempty
        is_space_def del: takeWhile_eq_all_conv)

lemma parseInt_number_to_string: "parseInt (JString (number_to_string (JNum n))) = JNum n"
  by (simp add: number_to_string.simps parseInt_string_nat_to_string
        parseInt_string_minus_nat_to_string)

lemma number_to_string_inj:
  "number_to_string (JNum p) = number_to_string (JNum q) \<Longrightarrow> p = q"
  by (metis parseInt_number_to_string jsnum.inject)

lemma page_key_inj: "page_key ident p = page_key ident q \<Longrightarrow> p = q"
  by (simp add: page_key_def number_to_string_inj)

section \<open>What a walk returns\<close>

lemma older_pages_neg: "p < 0 \<Longrightarrow> older_pages gw t ident p = []"
  by (simp add: older_pages_def)

lemma older_pages_step:
  "0 \<le> p \<Longrightarrow> older_pages gw t ident p =
     addPage (retrieveDataList gw ident (JNum p) t) None [] @ older_pages gw t ident (p - 1)"
  by (simp add: older_pages_def upto_rec2)

lemma complete_walk_None: "complete_walk gw t ident p None = older_pages gw t ident p"
  by (cases "p < 0") (simp_all add: complete_walk_def older_pages_neg older_pages_step)

lemma addPage_acc: "addPage dl fs acc = acc @ addPage dl fs []"
  by (simp add: addPage_def split: option.splits)

lemma walk_take:
  assumes "0 \<le> N"
  shows "\<exists>r. recursivelyRetrieveData gw t ident N (JNum p) fs acc = Some r
           \<and> take (nat N) r = take (nat N) (acc @ complete_walk gw t ident p fs)"
proof (induction "nat (p + 1)" arbitrary: p fs acc)
  case 0
  then have "p < 0" by simp
  then show ?case
    by (subst recursivelyRetrieveData.simps) (simp add: complete_walk_def)
next
  case (Suc n)
  then have p: "0 \<le> p" by simp
  let ?acc' = "addPage (retrieveDataList gw ident (JNum p) t) fs acc"
  have acc': "?acc' = acc @ addPage (retrieveDataList gw ident (JNum p) t) fs []"
    by (rule addPage_acc)
  show ?case
  proof (cases "int (length ?acc') < N")
    case True
    from Suc(2) have "n = nat (p - 1 + 1)" by simp
    from Suc(1) [OF this, of None ?acc'] obtain r where
      r: "recursivelyRetrieveData gw t ident N (JNum (p - 1)) None ?acc' = Some r"
         "take (nat N) r = take (nat N) (?acc' @ complete_walk gw t ident (p - 1) None)"
      by blast
    have "recursivelyRetrieveData gw t ident N (JNum p) fs acc = Some r"
      using p True r(1) by (subst recursivelyRetrieveData.simps) (simp add: Let_def)
    moreover have "?acc' @ complete_walk gw t ident (p - 1) None = acc @ complete_walk gw t ident p fs"
      unfolding complete_walk_None using p acc' by (simp add: complete_walk_def)
    ultimately show ?thesis using r(2) by simp
  next
    case False
    have "recursivelyRetrieveData gw t ident N (JNum p) fs acc = Some ?acc'"
      using p False by (subst recursivelyRetrieveData.simps) (simp add: Let_def)
    moreover have "acc @ complete_walk gw t ident p fs = ?acc' @ older_pages gw t ident (p - 1)"
      using p acc' by (simp add: complete_walk_def)
    moreover from False assms have "nat N \<le> length ?acc'" by linarith
    ultimately show ?thesis by simp
  qed
qed

lemma js_slice0_take: "0 \<le> N \<Longrightarrow> js_slice0 N xs = take (nat N) xs"
  by (simp add: js_slice0_def Let_def min_def)

lemma retrieveNElement_take:
  assumes "0 \<le> N"
  shows "retrieveNElement gw ident (JNum p) fs N t = Some (take (nat N) (complete_walk gw t ident p fs))"
proof -
  from walk_take [OF assms, of gw t ident p fs "[]"] obtain r where
    r: "recursivelyRetrieveData gw t ident N (JNum p) fs [] = Some r"
       "take (nat N) r = take (nat N) (complete_walk gw t ident p fs)"
    by auto
  have "(if int (length r) > N then js_slice0 N r else r) = take (nat N) r"
    using assms by (simp add: js_slice0_take)
  with r show ?thesis by (simp add: retrieveNElement_def)
qed

lemma js_splice_cut:
  "js_splice k (int (length xs) - k) xs
     = take (nat (if k < 0 then max (int (length xs) + k) 0 else k)) xs"
  by (auto simp: js_splice_def Let_def min_def max_def)

lemma indexDataList_positions:
  assumes "indexDataList (Some dl) (JNum q) parent = Some es"
  shows "map position (take j es) = map (\<lambda>i. (JNum q, JNum (int i))) [0..<min j (length dl)]"
    and "\<forall>e\<in>set es. page_id e = number_to_string (JNum q)"
proof -
  let ?f = "\<lambda>(i, item). \<lparr>val = item, page_id = number_to_string (JNum q),
              sequence_id = number_to_string (JNum (int i)), resource_id_parent = parent\<rparr>"
  from assms have es: "es = map ?f (enumerate 0 dl)"
    by (simp add: indexDataList_def)
  have pos: "position (?f x) = (JNum q, JNum (int (fst x)))" for x
    by (cases x) (simp add: position_def parseInt_string_nat_to_string
                    parseInt_number_to_string [simplified])
  have "map position (take j es) = map (\<lambda>x. (JNum q, JNum (int (fst x)))) (take j (enumerate 0 dl))"
    unfolding es take_map map_map using pos by (intro map_cong) simp_all
  also have "\<dots> = map (\<lambda>i. (JNum q, JNum (int i))) (map fst (take j (enumerate 0 dl)))"
    by (simp add: comp_def)
  also have "map fst (take j (enumerate 0 dl)) = [0..<min j (length dl)]"
    by (simp add: take_map [symmetric] take_upt min_def)
  finally show "map position (take j es) = map (\<lambda>i. (JNum q, JNum (int i))) [0..<min j (length dl)]" .
  show "\<forall>e\<in>set es. page_id e = number_to_string (JNum q)"
    by (auto simp: es)
qed

lemma addPage_segment:
  "\<exists>j. map position (addPage (retrieveDataList gw ident (JNum q) t) fs [])
         = map (\<lambda>i. (JNum q, JNum (int i))) (rev [0..<j])"
proof (cases "retrieveDataList gw ident (JNum q) t")
  case None
  then have "addPage (retrieveDataList gw ident (JNum q) t) fs [] = []"
    by (simp add: addPage_def)
  then show ?thesis by (intro exI [of _ 0]) simp
next
  case (Some es)
  then obtain dl where dl: "indexDataList (Some dl) (JNum q) ident = Some es"
    by (auto simp: retrieveDataList_def split: sum.splits option.splits)
  have "\<exists>m. addPage (Some es) fs [] = rev (take m es)"
  proof (cases "length es > 0")
    case False
    then show ?thesis by (simp add: addPage_def)
  next
    case True
    show ?thesis
    proof (cases "\<exists>k. fs = Some (JNum k) \<and> k \<noteq> 0")
      case True
      then obtain k where "fs = Some (JNum k)" "k \<noteq> 0" by blast
      then show ?thesis using \<open>length es > 0\<close>
        by (auto simp: addPage_def js_splice_cut)
    next
      case False
      then have "addPage (Some es) fs [] = rev (take (length es) es)"
        using \<open>length es > 0\<close>
        by (auto simp: addPage_def split: option.splits jsnum.splits)
      then show ?thesis by blast
    qed
  qed
  then obtain m where "addPage (Some es) fs [] = rev (take m es)" by blast
  then have "map position (addPage (retrieveDataList gw ident (JNum q) t) fs [])
               = rev (map position (take m es))"
    using Some by (simp add: rev_map)
  also have "\<dots> = map (\<lambda>i. (JNum q, JNum (int i))) (rev [0..<min m (length dl)])"
    by (simp add: indexDataList_positions(1) [OF dl] rev_map)
  finally show ?thesis by blast
qed

lemma addPage_page_ids:
  "\<forall>e\<in>set (addPage (retrieveDataList gw ident (JNum q) t) fs []).
     page_id e = number_to_string (JNum q)"
proof (cases "retrieveDataList gw ident (JNum q) t")
  case None
  then show ?thesis by (simp add: addPage_def)
next
  case (Some es)
  then obtain dl where dl: "indexDataList (Some dl) (JNum q) ident = Some es"
    by (auto simp: retrieveDataList_def split: sum.splits option.splits)
  have "set (addPage (Some es) fs []) \<subseteq> set es"
    by (auto simp: addPage_def js_splice_cut split: option.splits jsnum.splits dest: in_set_takeD)
  with indexDataList_positions(2) [OF dl] Some show ?thesis by auto
qed

lemma segment_sorted:
  "sorted_wrt more_recent (map (\<lambda>i. (JNum q, JNum (int i))) (rev [0..<j]))"
proof -
  have "sorted_wrt (\<lambda>a b. more_recent (JNum q, JNum (int b)) (JNum q, JNum (int a))) [0..<j]"
    by (rule sorted_wrt_mono_rel [OF _ sorted_wrt_upt]) simp
  then show ?thesis
    by (simp add: rev_map [symmetric] sorted_wrt_rev sorted_wrt_map)
qed

lemma older_pages_positions:
  "\<forall>x\<in>set (map position (older_pages gw t ident p)). \<exists>q i. x = (JNum q, JNum i) \<and> q \<le> p"
proof (induction "nat (p + 1)" arbitrary: p)
  case 0
  then show ?case by (simp add: older_pages_neg)
next
  case (Suc n)
  then have p: "0 \<le> p" and n: "n = nat (p - 1 + 1)" by simp_all
  obtain j where j: "map position (addPage (retrieveDataList gw ident (JNum p) t) None [])
         = map (\<lambda>i. (JNum p, JNum (int i))) (rev [0..<j])"
    using addPage_segment by blast
  show ?case
    using Suc(1) [OF n] j by (auto simp: older_pages_step [OF p])
qed

lemma older_pages_sorted: "sorted_wrt more_recent (map position (older_pages gw t ident p))"
proof (induction "nat (p + 1)" arbitrary: p)
  case 0
  then show ?case by (simp add: older_pages_neg)
next
  case (Suc n)
  then have p: "0 \<le> p" and n: "n = nat (p - 1 + 1)" by simp_all
  obtain j where j: "map position (addPage (retrieveDataList gw ident (JNum p) t) None [])
         = map (\<lambda>i. (JNum p, JNum (int i))) (rev [0..<j])"
    using addPage_segment by blast
  have "more_recent x y"
    if "x \<in> set (map (\<lambda>i. (JNum p, JNum (int i))) (rev [0..<j]))"
      and "y \<in> set (map position (older_pages gw t ident (p - 1)))" for x y
  proof -
    from that(2) older_pages_positions [of gw t ident "p - 1"]
    obtain q i where "y = (JNum q, JNum i)" "q \<le> p - 1" by blast
    with that(1) show ?thesis by auto
  qed
  then show ?case
    using Suc(1) [OF n] segment_sorted [of p j]
    by (simp add: older_pages_step [OF p] sorted_wrt_append j)
qed

lemma complete_walk_sorted:
  "sorted_wrt more_recent (map position (complete_walk gw t ident p fs))"
proof (cases "p < 0")
  case True
  then show ?thesis by (simp add: complete_walk_def)
next
  case False
  obtain j where j: "map position (addPage (retrieveDataList gw ident (JNum p) t) fs [])
         = map (\<lambda>i. (JNum p, JNum (int i))) (rev [0..<j])"
    using addPage_segment by blast
  have "more_recent x y"
    if "x \<in> set (map (\<lambda>i. (JNum p, JNum (int i))) (rev [0..<j]))"
      and "y \<in> set (map position (older_pages gw t ident (p - 1)))" for x y
  proof -
    from that(2) older_pages_positions [of gw t ident "p - 1"]
    obtain q i where "y = (JNum q, JNum i)" "q \<le> p - 1" by blast
    with that(1) show ?thesis by auto
  qed
  then show ?thesis
    using False older_pages_sorted [of gw t ident "p - 1"] segment_sorted [of p j]
    by (simp add: complete_walk_def sorted_wrt_append j)
qed

lemma sorted_wrt_take: "sorted_wrt P xs \<Longrightarrow> sorted_wrt P (take n xs)"
  by (metis append_take_drop_id sorted_wrt_append)

lemma walk_NaN:
  assumes "recursivelyRetrieveData gw t ident M p fs acc = Some r"
  shows "p = JNaN \<longrightarrow> M \<le> int (length r)"
proof (rule recursivelyRetrieveData.raw_induct
         [where P = "\<lambda>gw t ident M p fs acc r. p = JNaN \<longrightarrow> M \<le> int (length r)", OF _ assms])
  fix rec :: "gateway \<Rightarrow> table \<Rightarrow> string \<Rightarrow> int \<Rightarrow> jsnum \<Rightarrow> jsnum option \<Rightarrow> entry list \<Rightarrow> entry list option"
  fix gw t ident M p fs acc r
  assume IH: "\<And>gw t ident M p fs acc y. rec gw t ident M p fs acc = Some y \<Longrightarrow> p = JNaN \<longrightarrow> M \<le> int (length y)"
  assume eq: "(if js_lt p (JNum 0) then Some acc
      else let retrievedData' = addPage (retrieveDataList gw ident p t) fs acc
           in if int (length retrievedData') < M
              then rec gw t ident M (js_minus p 1) None retrievedData'
              else Some retrievedData') = Some r"
  show "p = JNaN \<longrightarrow> M \<le> int (length r)"
  proof
    assume p: "p = JNaN"
    show "M \<le> int (length r)"
    proof (cases "int (length (addPage (retrieveDataList gw ident p t) fs acc)) < M")
      case True
      with eq p have "rec gw t ident M JNaN None (addPage (retrieveDataList gw ident p t) fs acc) = Some r"
        by (simp add: Let_def)
      from IH [OF this] show ?thesis by simp
    next
      case False
      with eq p show ?thesis by (auto simp: Let_def)
    qed
  qed
qed

lemma retrieveNElement_NaN:
  assumes "retrieveNElement gw ident JNaN fs M t = Some full"
  shows "M \<le> int (length full)"
proof -
  from assms obtain r where r: "recursivelyRetrieveData gw t ident M JNaN fs [] = Some r"
    and full: "full = (if int (length r) > M then js_slice0 M r else r)"
    by (auto simp: retrieveNElement_def split: option.splits)
  from walk_NaN [OF r] have "M \<le> int (length r)" by simp
  with full show ?thesis
    by (auto simp: js_slice0_def Let_def min_def max_def)
qed

lemma retrieveDataList_dynamo:
  "retrieveDataList dynamo ident (JNum q) t
     = (case pages t (page_key ident q) of
          None \<Rightarrow> None
        | Some data \<Rightarrow> indexDataList (Some (data_list data)) (JNum q) ident)"
  by (simp add: retrieveDataList_def getPageData_def dynamo_def dynamo_get_page_def page_key_def)

lemma retrieveDataList_delete_page:
  "retrieveDataList dynamo ident (JNum q) (delete_page ident p t)
     = (if q = p then None else retrieveDataList dynamo ident (JNum q) t)"
  using page_key_inj [of ident q p]
  by (auto simp: retrieveDataList_dynamo delete_page_def)

lemma addPage_delete_page:
  "addPage (retrieveDataList dynamo ident (JNum q) (delete_page ident p t)) fs []
     = filter (\<lambda>e. page_id e \<noteq> number_to_string (JNum p))
         (addPage (retrieveDataList dynamo ident (JNum q) t) fs [])"
proof (cases "q = p")
  case True
  have "filter (\<lambda>e. page_id e \<noteq> number_to_string (JNum p))
         (addPage (retrieveDataList dynamo ident (JNum p) t) fs []) = []"
    using addPage_page_ids [of dynamo ident p t fs] by (simp add: filter_empty_conv)
  with True show ?thesis
    by (simp add: retrieveDataList_delete_page addPage_def)
next
  case False
  then have "number_to_string (JNum q) \<noteq> number_to_string (JNum p)"
    using number_to_string_inj by blast
  then have "filter (\<lambda>e. page_id e \<noteq> number_to_string (JNum p))
         (addPage (retrieveDataList dynamo ident (JNum q) t) fs [])
       = addPage (retrieveDataList dynamo ident (JNum q) t) fs []"
    using addPage_page_ids [of dynamo ident q t fs] by (simp add: filter_id_conv)
  with False show ?thesis
    by (simp add: retrieveDataList_delete_page)
qed

lemma older_pages_delete_page:
  "older_pages dynamo (delete_page ident p t) ident q
     = filter (\<lambda>e. page_id e \<noteq> number_to_string (JNum p)) (older_pages dynamo t ident q)"
  by (simp add: older_pages_def addPage_delete_page filter_concat comp_def)

lemma complete_walk_delete_page:
  "complete_walk dynamo (delete_page ident p t) ident q fs
     = filter (\<lambda>e. page_id e \<noteq> number_to_string (JNum p)) (complete_walk dynamo t ident q fs)"
  by (simp add: complete_walk_def addPage_delete_page older_pages_delete_page)

lemma untruncated_is_complete:
  assumes "retrieveNElement gw ident (JNum q) fs M t = Some full" and "int (length full) < M"
  shows "full = complete_walk gw t ident q fs"
proof -
  from assms(2) have M: "0 \<le> M" by linarith
  from retrieveNElement_take [OF M, of gw ident q fs t] assms(1)
  have full: "full = take (nat M) (complete_walk gw t ident q fs)" by simp
  with assms(2) have "length (complete_walk gw t ident q fs) < nat M"
    by (auto simp: min_def split: if_splits)
  with full show ?thesis by simp
qed

lemma getCurrentPage_delete_page:
  "getCurrentPage dynamo ident (delete_page ident p t) = getCurrentPage dynamo ident t"
  by (simp add: getCurrentPage_def getPageData_summary_def dynamo_def dynamo_get_summary_def
        delete_page_def)

text \<open>On the reference store the code reads a page as the specification words its items.\<close>

lemma retrieveDataList_page_items:
  "retrieveDataList dynamo ident (JNum p) t
     = (case pages t (page_key ident p) of
          None \<Rightarrow> None
        | Some pg \<Rightarrow> Some (spec_page_items t ident p))"
proof (cases "pages t (page_key ident p)")
  case None
  then show ?thesis by (simp add: retrieveDataList_dynamo)
next
  case (Some pg)
  have "map (\<lambda>(i, item). \<lparr>val = item, page_id = number_to_string (JNum p),
                            sequence_id = number_to_string (JNum (int i)),
                            resource_id_parent = ident\<rparr>) (enumerate 0 (data_list pg))
          = map (\<lambda>i. \<lparr>val = data_list pg ! i, page_id = number_to_string (JNum p),
                       sequence_id = number_to_string (JNum (int i)),
                       resource_id_parent = ident\<rparr>) [0..<length (data_list pg)]"
    by (rule nth_equalityI) (simp_all add: nth_enumerate_eq)
  with Some show ?thesis
    by (simp add: retrieveDataList_dynamo indexDataList_def spec_page_items_def)
qed

lemma addPage_page_items:
  "addPage (retrieveDataList dynamo ident (JNum p) t) None [] = rev (spec_page_items t ident p)"
  by (auto simp: retrieveDataList_page_items addPage_def spec_page_items_def split: option.splits)

lemma addPage_page_items_cut:
  assumes "0 < k"
  shows "addPage (retrieveDataList dynamo ident (JNum p) t) (Some (JNum k)) []
           = rev (take (nat k) (spec_page_items t ident p))"
proof (cases "pages t (page_key ident p)")
  case None
  then show ?thesis
    by (simp add: retrieveDataList_page_items addPage_def spec_page_items_def)
next
  case (Some pg)
  then have r: "retrieveDataList dynamo ident (JNum p) t = Some (spec_page_items t ident p)"
    by (simp add: retrieveDataList_page_items)
  show ?thesis
    using assms unfolding r by (simp add: addPage_def js_splice_cut)
qed

lemma older_pages_most_recent_first:
  "older_pages dynamo t ident p = spec_most_recent_first t ident p"
  by (simp add: older_pages_def spec_most_recent_first_def addPage_page_items)

text \<open>
  C3. For every number of items \<open>N \<ge> 0\<close> and every table of the reference store:
  \<open>retrieveLastMostRecent\<close>, when the summary holds \<open>currentPage = cp\<close>, calls back with
  exactly the first \<open>N\<close> items of the pages \<open>cp\<close>, \<open>cp - 1\<close>, ..., \<open>0\<close> of the table, each
  page's \<open>data_list\<close> reversed; the walk \<open>retrieveNElement\<close> from any page does the same
  from that page, and with a cut at \<open>k > 0\<close> it keeps of the first page the items
  below offset \<open>k\<close>. That result has at most \<open>N\<close> items and every item in it is
  strictly more recent than the ones after it: it comes from a later page, or from the
  same page at a higher sequence\_id. The bound and the order hold on every store, for
  every start page and cut.
\<close>

theorem retrieval_bounded_and_ordered:
  assumes "0 \<le> N"
  shows "(getCurrentPage dynamo ident t = Inr cp \<longrightarrow>
            retrieveLastMostRecent dynamo ident N t
              = Inr (Some (take (nat N) (spec_most_recent_first t ident cp))))
       \<and> retrieveNElement dynamo ident (JNum fromPage) None N t
            = Some (take (nat N) (spec_most_recent_first t ident fromPage))
       \<and> (0 < k \<and> 0 \<le> fromPage \<longrightarrow>
            retrieveNElement dynamo ident (JNum fromPage) (Some (JNum k)) N t
              = Some (take (nat N)
                        (rev (take (nat k) (spec_page_items t ident fromPage))
                         @ spec_most_recent_first t ident (fromPage - 1))))
       \<and> int (length (take (nat N) (spec_most_recent_first t ident cp))) \<le> N
       \<and> sorted_wrt more_recent (map position (take (nat N) (spec_most_recent_first t ident cp)))
       \<and> (\<exists>r. retrieveNElement gw ident (JNum fromPage) fromSequence N t = Some r
              \<and> int (length r) \<le> N \<and> sorted_wrt more_recent (map position r))
       \<and> (getCurrentPage gw ident t = Inr cp \<longrightarrow>
            (\<exists>r. retrieveLastMostRecent gw ident N t = Inr (Some r)
                  \<and> int (length r) \<le> N \<and> sorted_wrt more_recent (map position r)))"
proof -
  have walk: "\<exists>r. retrieveNElement gw ident (JNum q) fs N t = Some r
              \<and> int (length r) \<le> N \<and> sorted_wrt more_recent (map position r)" for q fs
  proof -
    let ?r = "take (nat N) (complete_walk gw t ident q fs)"
    have "retrieveNElement gw ident (JNum q) fs N t = Some ?r"
      by (rule retrieveNElement_take [OF assms])
    moreover have "int (length ?r) \<le> N" using assms by simp
    moreover have "sorted_wrt more_recent (map position ?r)"
      using complete_walk_sorted [of gw t ident q fs]
      by (simp add: take_map [symmetric] sorted_wrt_take)
    ultimately show ?thesis by blast
  qed
  have whole: "complete_walk dynamo t ident q None = spec_most_recent_first t ident q" for q
    by (simp add: complete_walk_None older_pages_most_recent_first)
  have contents: "retrieveNElement dynamo ident (JNum q) None N t
                    = Some (take (nat N) (spec_most_recent_first t ident q))" for q
    using retrieveNElement_take [OF assms, of dynamo ident q None t] by (simp add: whole)
  have cut: "retrieveNElement dynamo ident (JNum fromPage) (Some (JNum k)) N t
              = Some (take (nat N)
                        (rev (take (nat k) (spec_page_items t ident fromPage))
                         @ spec_most_recent_first t ident (fromPage - 1)))"
    if "0 < k" and "0 \<le> fromPage"
    using that retrieveNElement_take [OF assms, of dynamo ident fromPage "Some (JNum k)" t]
    by (simp add: complete_walk_def addPage_page_items_cut older_pages_most_recent_first)
  have last: "retrieveLastMostRecent dynamo ident N t
              = Inr (Some (take (nat N) (spec_most_recent_first t ident cp)))"
    if "getCurrentPage dynamo ident t = Inr cp"
    using that contents [of cp] by (simp add: retrieveLastMostRecent_def)
  have bound: "int (length (take (nat N) (spec_most_recent_first t ident cp))) \<le> N"
    using assms by simp
  have sorted: "sorted_wrt more_recent
                  (map position (take (nat N) (spec_most_recent_first t ident cp)))"
    using complete_walk_sorted [of dynamo t ident cp None]
    by (simp add: whole take_map [symmetric] sorted_wrt_take)
  have last_any: "\<exists>r. retrieveLastMostRecent gw ident N t = Inr (Some r)
                  \<and> int (length r) \<le> N \<and> sorted_wrt more_recent (map position r)"
    if "getCurrentPage gw ident t = Inr cp"
    using that walk [of cp None] by (simp add: retrieveLastMostRecent_def)
  from last contents [of fromPage] cut bound sorted walk [of fromPage fromSequence] last_any
  show ?thesis by blast
qed

theorem retrieval_bounded_and_ordered_witness:
  "(0::int) \<le> 3
   \<and> getCurrentPage dynamo ''L'' test_list = Inr 2
   \<and> take (nat 3) (spec_most_recent_first test_list ''L'' 2)
       = [\<lparr>val = ''Hello4'', page_id = ''2'', sequence_id = ''0'', resource_id_parent = ''L''\<rparr>,
          \<lparr>val = ''Hello3'', page_id = ''1'', sequence_id = ''1'', resource_id_parent = ''L''\<rparr>,
          \<lparr>val = ''Hello2'', page_id = ''1'', sequence_id = ''0'', resource_id_parent = ''L''\<rparr>]
   \<and> retrieveLastMostRecent dynamo ''L'' 3 test_list
       = Inr (Some [\<lparr>val = ''Hello4'', page_id = ''2'', sequence_id = ''0'', resource_id_parent = ''L''\<rparr>,
                    \<lparr>val = ''Hello3'', page_id = ''1'', sequence_id = ''1'', resource_id_parent = ''L''\<rparr>,
                    \<lparr>val = ''Hello2'', page_id = ''1'', sequence_id = ''0'', resource_id_parent = ''L''\<rparr>])
   \<and> (0::int) < 1 \<and> (0::int) \<le> 1
   \<and> retrieveNElement dynamo ''L'' (JNum 1) (Some (JNum 1)) 3 test_list
       = Some [\<lparr>val = ''Hello2'', page_id = ''1'', sequence_id = ''0'', resource_id_parent = ''L''\<rparr>,
               \<lparr>val = ''Hello1'', page_id = ''0'', sequence_id = ''1'', resource_id_parent = ''L''\<rparr>,
               \<lparr>val = ''Hello0'', page_id = ''0'', sequence_id = ''0'', resource_id_parent = ''L''\<rparr>]
   \<and> sorted_wrt more_recent
        (map position
           [\<lparr>val = ''Hello4'', page_id = ''2'', sequence_id = ''0'', resource_id_parent = ''L''\<rparr>,
            \<lparr>val = ''Hello3'', page_id = ''1'', sequence_id = ''1'', resource_id_parent = ''L''\<rparr>,
            \<lparr>val = ''Hello2'', page_id = ''1'', sequence_id = ''0'', resource_id_parent = ''L''\<rparr>])"
proof -
  let ?h4 = "\<lparr>val = ''Hello4'', page_id = ''2'', sequence_id = ''0'', resource_id_parent = ''L''\<rparr>"
  let ?h3 = "\<lparr>val = ''Hello3'', page_id = ''1'', sequence_id = ''1'', resource_id_parent = ''L''\<rparr>"
  let ?h2 = "\<lparr>val = ''Hello2'', page_id = ''1'', sequence_id = ''0'', resource_id_parent = ''L''\<rparr>"
  let ?h1 = "\<lparr>val = ''Hello1'', page_id = ''0'', sequence_id = ''1'', resource_id_parent = ''L''\<rparr>"
  let ?h0 = "\<lparr>val = ''Hello0'', page_id = ''0'', sequence_id = ''0'', resource_id_parent = ''L''\<rparr>"
  have n: "(0::int) \<le> 3" by simp
  have h: "getCurrentPage dynamo ''L'' test_list = Inr 2"
    by code_simp
  have e: "take (nat 3) (spec_most_recent_first test_list ''L'' 2) = [?h4, ?h3, ?h2]"
    by code_simp
  have c: "take (nat 3) (rev (take (nat 1) (spec_page_items test_list ''L'' 1))
                         @ spec_most_recent_first test_list ''L'' (1 - 1)) = [?h2, ?h1, ?h0]"
    by code_simp
  note T = retrieval_bounded_and_ordered
             [OF n, of "''L''" test_list 2 1 1 dynamo None]
  from T h have l: "retrieveLastMostRecent dynamo ''L'' 3 test_list
                      = Inr (Some (take (nat 3) (spec_most_recent_first test_list ''L'' 2)))"
    by blast
  from T have w: "retrieveNElement dynamo ''L'' (JNum 1) (Some (JNum 1)) 3 test_list
       = Some (take (nat 3) (rev (take (nat 1) (spec_page_items test_list ''L'' 1))
                         @ spec_most_recent_first test_list ''L'' (1 - 1)))"
    by simp
  from T have s: "sorted_wrt more_recent
                    (map position (take (nat 3) (spec_most_recent_first test_list ''L'' 2)))"
    by blast
  from n h e l [unfolded e] w [unfolded c] s [unfolded e] show ?thesis
    by simp
qed

text \<open>
  C6, as stated, fails: when the walk is cut at \<open>N\<close> elements, removing a page makes
  room for older elements. In the test list, the three most recent elements are Hello4,
  Hello3, Hello2; without page 1 the walk returns Hello4, Hello1, Hello0, which is not
  the former sequence minus the elements of page 1 (that is Hello4 alone).
\<close>

theorem blank_page_counterexample:
  "retrieveLastMostRecent dynamo ''L'' 3 test_list
     = Inr (Some [\<lparr>val = ''Hello4'', page_id = ''2'', sequence_id = ''0'', resource_id_parent = ''L''\<rparr>,
                  \<lparr>val = ''Hello3'', page_id = ''1'', sequence_id = ''1'', resource_id_parent = ''L''\<rparr>,
                  \<lparr>val = ''Hello2'', page_id = ''1'', sequence_id = ''0'', resource_id_parent = ''L''\<rparr>])
   \<and> retrieveLastMostRecent dynamo ''L'' 3 (delete_page ''L'' 1 test_list)
     = Inr (Some [\<lparr>val = ''Hello4'', page_id = ''2'', sequence_id = ''0'', resource_id_parent = ''L''\<rparr>,
                  \<lparr>val = ''Hello1'', page_id = ''0'', sequence_id = ''1'', resource_id_parent = ''L''\<rparr>,
                  \<lparr>val = ''Hello0'', page_id = ''0'', sequence_id = ''0'', resource_id_parent = ''L''\<rparr>])
   \<and> retrieveLastMostRecent dynamo ''L'' 3 (delete_page ''L'' 1 test_list)
     \<noteq> map_sum id (map_option (filter (\<lambda>e. page_id e \<noteq> number_to_string (JNum 1))))
         (retrieveLastMostRecent dynamo ''L'' 3 test_list)"
  by code_simp


text \<open>
  C6, amended. On the reference store, a walk over a table in which page \<open>p\<close> is blank
  calls back, for every \<open>N \<ge> 0\<close>, with the first \<open>N\<close> elements of the complete sequence
  of the table where the page exists, minus that page's elements; the complete
  sequence is the result of a walk that was not cut (it returned fewer than the \<open>M\<close>
  elements asked for). This holds for the walk from any page with any cut, for
  \<open>retrieveLastMostRecent\<close> and for \<open>retrieveNextMostRecent\<close>.
\<close>

theorem blank_page_skipped:
  assumes "0 \<le> N"
  shows "(retrieveNElement dynamo ident (JNum fromPage) fromSequence M t = Some full
            \<and> int (length full) < M \<longrightarrow>
          retrieveNElement dynamo ident (JNum fromPage) fromSequence N (delete_page ident p t)
            = Some (take (nat N) (filter (\<lambda>e. page_id e \<noteq> number_to_string (JNum p)) full)))
       \<and> (retrieveLastMostRecent dynamo ident M t = Inr (Some full) \<and> int (length full) < M \<longrightarrow>
          retrieveLastMostRecent dynamo ident N (delete_page ident p t)
            = Inr (Some (take (nat N) (filter (\<lambda>e. page_id e \<noteq> number_to_string (JNum p)) full))))
       \<and> (retrieveNextMostRecent dynamo ident c M t = Inr (Some full) \<and> int (length full) < M \<longrightarrow>
          retrieveNextMostRecent dynamo ident c N (delete_page ident p t)
            = Inr (Some (take (nat N) (filter (\<lambda>e. page_id e \<noteq> number_to_string (JNum p)) full))))"
proof -
  have walk: "retrieveNElement dynamo ident q fs N (delete_page ident p t)
                = Some (take (nat N) (filter (\<lambda>e. page_id e \<noteq> number_to_string (JNum p)) full))"
    if "retrieveNElement dynamo ident q fs M t = Some full" and "int (length full) < M"
    for q fs
  proof (cases q)
    case JNaN
    with that retrieveNElement_NaN [of dynamo ident fs M t full] show ?thesis by simp
  next
    case (JNum fp)
    with that have "full = complete_walk dynamo t ident fp fs"
      by (intro untruncated_is_complete [of dynamo ident fp fs M t]) simp_all
    then show ?thesis
      using JNum retrieveNElement_take [OF assms, of dynamo ident fp fs "delete_page ident p t"]
      by (simp add: complete_walk_delete_page)
  qed
  have last: "retrieveLastMostRecent dynamo ident N (delete_page ident p t)
            = Inr (Some (take (nat N) (filter (\<lambda>e. page_id e \<noteq> number_to_string (JNum p)) full)))"
    if "retrieveLastMostRecent dynamo ident M t = Inr (Some full)" and "int (length full) < M"
    using that walk
    by (auto simp: retrieveLastMostRecent_def getCurrentPage_delete_page split: sum.splits)
  have "next": "retrieveNextMostRecent dynamo ident c N (delete_page ident p t)
            = Inr (Some (take (nat N) (filter (\<lambda>e. page_id e \<noteq> number_to_string (JNum p)) full)))"
    if "retrieveNextMostRecent dynamo ident c M t = Inr (Some full)" and "int (length full) < M"
    using that walk
    by (auto simp: retrieveNextMostRecent_def Let_def split: option.splits if_splits)
  from walk last "next" show ?thesis by blast
qed

theorem blank_page_skipped_witness:
  "(0::int) \<le> 3
   \<and> retrieveLastMostRecent dynamo ''L'' 300 test_list
       = Inr (Some [\<lparr>val = ''Hello4'', page_id = ''2'', sequence_id = ''0'', resource_id_parent = ''L''\<rparr>,
                  \<lparr>val = ''Hello3'', page_id = ''1'', sequence_id = ''1'', resource_id_parent = ''L''\<rparr>,
                  \<lparr>val = ''Hello2'', page_id = ''1'', sequence_id = ''0'', resource_id_parent = ''L''\<rparr>,
                  \<lparr>val = ''Hello1'', page_id = ''0'', sequence_id = ''1'', resource_id_parent = ''L''\<rparr>,
                  \<lparr>val = ''Hello0'', page_id = ''0'', sequence_id = ''0'', resource_id_parent = ''L''\<rparr>])
   \<and> retrieveLastMostRecent dynamo ''L'' 3 (delete_page ''L'' 1 test_list)
       = Inr (Some [\<lparr>val = ''Hello4'', page_id = ''2'', sequence_id = ''0'', resource_id_parent = ''L''\<rparr>,
                  \<lparr>val = ''Hello1'', page_id = ''0'', sequence_id = ''1'', resource_id_parent = ''L''\<rparr>,
                  \<lparr>val = ''Hello0'', page_id = ''0'', sequence_id = ''0'', resource_id_parent = ''L''\<rparr>])"
proof -
  let ?full = "[\<lparr>val = ''Hello4'', page_id = ''2'', sequence_id = ''0'', resource_id_parent = ''L''\<rparr>,
                  \<lparr>val = ''Hello3'', page_id = ''1'', sequence_id = ''1'', resource_id_parent = ''L''\<rparr>,
                  \<lparr>val = ''Hello2'', page_id = ''1'', sequence_id = ''0'', resource_id_parent = ''L''\<rparr>,
                  \<lparr>val = ''Hello1'', page_id = ''0'', sequence_id = ''1'', resource_id_parent = ''L''\<rparr>,
                  \<lparr>val = ''Hello0'', page_id = ''0'', sequence_id = ''0'', resource_id_parent = ''L''\<rparr>]"
  have h: "retrieveLastMostRecent dynamo ''L'' 300 test_list = Inr (Some ?full)"
    by code_simp
  have s: "number_to_string (JNum 1) = ''1''"
    by code_simp
  have n: "(0::int) \<le> 3" by simp
  from blank_page_skipped [OF n, of "''L''" 2 None 300 test_list ?full 1 None, THEN conjunct2, THEN conjunct1] h
  have "retrieveLastMostRecent dynamo ''L'' 3 (delete_page ''L'' 1 test_list)
          = Inr (Some (take (nat 3) (filter (\<lambda>e. page_id e \<noteq> number_to_string (JNum 1)) ?full)))"
    by simp
  then show ?thesis using h unfolding s by (simp add: numeral_3_eq_3)
qed

section \<open>Appending on the reference store\<close>

lemma getCurrentPage_dynamo:
  "getCurrentPage dynamo ident t
     = (case summaries t (summary_key ident) of
          None \<Rightarrow> Inl TypeError
        | Some sm \<Rightarrow> Inr (currentPage sm))"
  by (simp add: getCurrentPage_def getPageData_summary_def dynamo_def dynamo_get_summary_def
        summary_key_def split: option.splits)

lemma appendDataToPage_dynamo:
  "appendDataToPage dynamo ident p x t
     = (case pages t (page_key ident p) of
          None \<Rightarrow> (Inl (AwsError ''ValidationException''), t)
        | Some pg \<Rightarrow>
            (Inr (length (data_list pg) + 1),
             t\<lparr>pages := (pages t)(page_key ident p \<mapsto> pg\<lparr>data_list := data_list pg @ [x]\<rparr>)\<rparr>))"
  by (simp add: appendDataToPage_def dynamo_def dynamo_update_list_append_def page_key_def
        Let_def split: option.splits)

lemma createNewPage_dynamo:
  "createNewPage dynamo now ident p t
     = (Inr (),
        case pages t (page_key ident p) of
          None \<Rightarrow> t\<lparr>pages := (pages t)(page_key ident p \<mapsto>
                                  getDefaultPageData now (page_key ident p))\<rparr>
        | Some _ \<Rightarrow> t)"
  by (simp add: createNewPage_def dynamo_def dynamo_put_page_def page_key_def
        getDefaultPageData_def Let_def split: option.splits)

lemma increasePageCounter_dynamo:
  "increasePageCounter dynamo ident p t
     = (case summaries t (summary_key ident) of
          None \<Rightarrow> (Inr None, t)
        | Some sm \<Rightarrow>
            if currentPage sm = p
            then (Inr (Some (p + 1)),
                  t\<lparr>summaries := (summaries t)(summary_key ident \<mapsto>
                                      sm\<lparr>currentPage := currentPage sm + 1\<rparr>)\<rparr>)
            else (Inr None, t))"
  by (simp add: increasePageCounter_def dynamo_def dynamo_increment_counter_def summary_key_def
        split: option.splits)

lemma page_key_neq [simp]: "(page_key ident p = page_key ident q) = (p = q)"
  using page_key_inj by blast

lemma appendSuccessful_dynamo:
  assumes "summaries t (summary_key ident) = Some sm" and "currentPage sm = p" and "0 \<le> p"
    and "maxElementPerPage cfg = JNum m"
  shows "appendSuccessful dynamo cfg now ident p n t
     = (Inr \<lparr>r_page_id = p, r_sequence_id = int n - 1\<rparr>,
        if m \<le> int n
        then (case pages t (page_key ident (p + 1)) of
                None \<Rightarrow>
                  t\<lparr>summaries := (summaries t)(summary_key ident \<mapsto> sm\<lparr>currentPage := p + 1\<rparr>),
                    pages := (pages t)(page_key ident (p + 1) \<mapsto>
                                 getDefaultPageData now (page_key ident (p + 1)))\<rparr>
              | Some _ \<Rightarrow>
                  t\<lparr>summaries := (summaries t)(summary_key ident \<mapsto> sm\<lparr>currentPage := p + 1\<rparr>)\<rparr>)
        else t)"
  using assms
  by (auto simp: appendSuccessful_def increasePageCounter_dynamo createNewPage_dynamo Let_def
        split: option.splits)

lemma atomicAppendImpl_dynamo_present:
  assumes "summaries t (summary_key ident) = Some sm" and "currentPage sm = p" and "0 \<le> p"
    and "maxElementPerPage cfg = JNum m"
    and "pages t (page_key ident p) = Some pg" and "attempt \<le> 1"
  shows "atomicAppendImpl dynamo cfg now ident p x attempt t
     = appendSuccessful dynamo cfg now ident p (length (data_list pg) + 1)
         (t\<lparr>pages := (pages t)(page_key ident p \<mapsto> pg\<lparr>data_list := data_list pg @ [x]\<rparr>)\<rparr>)"
  using assms
  by (subst atomicAppendImpl.simps)
     (simp add: appendDataToPage_dynamo appendSuccessful_dynamo [where sm = sm and m = m]
        split: option.splits)

lemma atomicAppendImpl_dynamo_absent:
  assumes "summaries t (summary_key ident) = Some sm" and "currentPage sm = p" and "0 \<le> p"
    and "maxElementPerPage cfg = JNum m"
    and "pages t (page_key ident p) = None"
  shows "atomicAppendImpl dynamo cfg now ident p x 0 t
     = appendSuccessful dynamo cfg now ident p 1
         (t\<lparr>pages := (pages t)(page_key ident p \<mapsto>
               (getDefaultPageData now (page_key ident p))\<lparr>data_list := [x]\<rparr>)\<rparr>)"
proof -
  let ?t1 = "t\<lparr>pages := (pages t)(page_key ident p \<mapsto> getDefaultPageData now (page_key ident p))\<rparr>"
  have "atomicAppendImpl dynamo cfg now ident p x 0 t = atomicAppendImpl dynamo cfg now ident p x 1 ?t1"
    using assms(5)
    by (subst atomicAppendImpl.simps) (simp add: appendDataToPage_dynamo createNewPage_dynamo)
  also have "\<dots> = appendSuccessful dynamo cfg now ident p
                      (length (data_list (getDefaultPageData now (page_key ident p))) + 1)
         (?t1\<lparr>pages := (pages ?t1)(page_key ident p \<mapsto>
               (getDefaultPageData now (page_key ident p))
                  \<lparr>data_list := data_list (getDefaultPageData now (page_key ident p)) @ [x]\<rparr>)\<rparr>)"
    using assms by (intro atomicAppendImpl_dynamo_present [where sm = sm and m = m]) simp_all
  finally show ?thesis by (simp add: getDefaultPageData_def)
qed

lemma seq_step:
  assumes inv: "seq_inv m ident t" and m: "maxElementPerPage cfg = JNum m" and m1: "1 \<le> m"
  shows "\<exists>r t' pg. atomicAppend dynamo cfg now ident x t = (Inr r, t')
           \<and> getCurrentPage dynamo ident t = Inr (r_page_id r)
           \<and> pages t' (page_key ident (r_page_id r)) = Some pg
           \<and> int (length (data_list pg)) = r_sequence_id r + 1
           \<and> int (length (data_list pg)) \<le> m
           \<and> (m \<le> r_sequence_id r + 1 \<longrightarrow>
                getCurrentPage dynamo ident t' = Inr (r_page_id r + 1)
                \<and> pages t (page_key ident (r_page_id r + 1)) = None
                \<and> (\<exists>pg'. pages t' (page_key ident (r_page_id r + 1)) = Some pg'
                          \<and> data_list pg' = []))
           \<and> seq_inv m ident t'"
proof -
  from inv obtain sm where sm: "summaries t (summary_key ident) = Some sm"
    and p0: "0 \<le> currentPage sm"
    and above: "\<And>q. currentPage sm < q \<Longrightarrow> pages t (page_key ident q) = None"
    and room: "\<And>pg. pages t (page_key ident (currentPage sm)) = Some pg
                 \<Longrightarrow> int (length (data_list pg)) < m"
    by (auto simp: seq_inv_def split: option.splits)
  let ?p = "currentPage sm"
  have cur: "getCurrentPage dynamo ident t = Inr ?p"
    by (simp add: getCurrentPage_dynamo sm)
  have app: "atomicAppend dynamo cfg now ident x t = atomicAppendImpl dynamo cfg now ident ?p x 0 t"
    by (simp add: atomicAppend_def cur)
  have next_free: "pages t (page_key ident (?p + 1)) = None"
    by (rule above) simp
  define pg0 where "pg0 = (case pages t (page_key ident ?p) of
                             None \<Rightarrow> getDefaultPageData now (page_key ident ?p)
                           | Some pg \<Rightarrow> pg)"
  define pg1 where "pg1 = pg0\<lparr>data_list := data_list pg0 @ [x]\<rparr>"
  define t1 where "t1 = t\<lparr>pages := (pages t)(page_key ident ?p \<mapsto> pg1)\<rparr>"
  have len0: "int (length (data_list pg0)) < m"
    using room m1 by (auto simp: pg0_def getDefaultPageData_def split: option.splits)
  have impl: "atomicAppendImpl dynamo cfg now ident ?p x 0 t
                = appendSuccessful dynamo cfg now ident ?p (length (data_list pg1)) t1"
  proof (cases "pages t (page_key ident ?p)")
    case None
    then show ?thesis
      using atomicAppendImpl_dynamo_absent [OF sm refl p0 m None, of now x]
      by (simp add: t1_def pg1_def pg0_def getDefaultPageData_def)
  next
    case (Some pg)
    then show ?thesis
      using atomicAppendImpl_dynamo_present [OF sm refl p0 m Some, of 0 now x]
      by (simp add: t1_def pg1_def pg0_def)
  qed
  have sm1: "summaries t1 (summary_key ident) = Some sm"
    by (simp add: t1_def sm)
  have next_free1: "pages t1 (page_key ident (?p + 1)) = None"
    using next_free by (simp add: t1_def)
  let ?n = "length (data_list pg1)"
  let ?r = "\<lparr>r_page_id = ?p, r_sequence_id = int ?n - 1\<rparr>"
  let ?t2 = "t1\<lparr>summaries := (summaries t1)(summary_key ident \<mapsto> sm\<lparr>currentPage := ?p + 1\<rparr>),
                 pages := (pages t1)(page_key ident (?p + 1) \<mapsto>
                                getDefaultPageData now (page_key ident (?p + 1)))\<rparr>"
  let ?t' = "if m \<le> int ?n then ?t2 else t1"
  have res: "atomicAppend dynamo cfg now ident x t = (Inr ?r, ?t')"
    unfolding app impl
    using appendSuccessful_dynamo [OF sm1 refl p0 m, of now ?n] next_free1
    by simp
  have n: "int ?n \<le> m" "int ?n = int (length (data_list pg0)) + 1"
    using len0 by (simp_all add: pg1_def)
  have page': "pages ?t' (page_key ident ?p) = Some pg1"
    by (simp add: t1_def)
  have roll: "getCurrentPage dynamo ident ?t' = Inr (?p + 1)
              \<and> (\<exists>pg'. pages ?t' (page_key ident (?p + 1)) = Some pg' \<and> data_list pg' = [])"
    if "m \<le> int ?n"
    using that by (simp add: getCurrentPage_dynamo getDefaultPageData_def)
  have inv': "seq_inv m ident ?t'"
  proof (cases "m \<le> int ?n")
    case True
    then show ?thesis
      using above m1 sm p0
      by (auto simp: seq_inv_def t1_def getDefaultPageData_def)
  next
    case False
    then show ?thesis
      using above sm p0 by (auto simp: seq_inv_def t1_def)
  qed
  show ?thesis
    using res cur page' n roll inv' next_free
    by (intro exI [of _ ?r] exI [of _ ?t'] exI [of _ pg1]) auto
qed

lemma idempotentCreate_dynamo:
  "idempotentCreate dynamo now ident metadata t
     = (case summaries t (summary_key ident) of
          Some _ \<Rightarrow> (Inl (AwsError ''ConditionalCheckFailedException''), t)
        | None \<Rightarrow>
            (Inr (defaultPageSummary now ident metadata),
             t\<lparr>summaries := (summaries t)(summary_key ident \<mapsto>
                                 defaultPageSummary now ident metadata)\<rparr>))"
  by (simp add: idempotentCreate_def dynamo_def dynamo_put_summary_def summary_key_def
        defaultPageSummary_def Let_def split: option.splits)

lemma seq_reachable_inv:
  assumes "seq_reachable cfg ident t" and "maxElementPerPage cfg = JNum m" and "1 \<le> m"
  shows "seq_inv m ident t"
  using assms
proof (induction rule: seq_reachable.induct)
  case (created t0 now metadata s t)
  then show ?case
    by (auto simp: idempotentCreate_dynamo seq_inv_def defaultPageSummary_def
          split: option.splits)
next
  case (appended t now x r t')
  from seq_step [OF appended.IH [OF appended.prems] appended.prems, of now x] appended.hyps(2)
  show ?case by auto
qed


text \<open>
  C1. A single caller creates a list on the reference store and appends to it, one call
  after the other, with a page size \<open>m \<ge> 1\<close>. In every state so reached the next
  \<open>atomicAppend\<close> succeeds with a pointer into the current page; after it that page
  holds as many elements as the pointer says (its sequence\_id plus one), and at most
  \<open>m\<close>; and when that number reaches \<open>m\<close>, the counter of the summary is the page number
  plus one and the next page, which did not exist before the call, exists and is empty.
\<close>

theorem sequential_rollover:
  assumes "seq_reachable cfg ident t" and "maxElementPerPage cfg = JNum m" and "1 \<le> m"
  shows "\<exists>r t' pg. atomicAppend dynamo cfg now ident x t = (Inr r, t')
           \<and> getCurrentPage dynamo ident t = Inr (r_page_id r)
           \<and> pages t' (page_key ident (r_page_id r)) = Some pg
           \<and> int (length (data_list pg)) = r_sequence_id r + 1
           \<and> int (length (data_list pg)) \<le> m
           \<and> (m \<le> r_sequence_id r + 1 \<longrightarrow>
                getCurrentPage dynamo ident t' = Inr (r_page_id r + 1)
                \<and> pages t (page_key ident (r_page_id r + 1)) = None
                \<and> (\<exists>pg'. pages t' (page_key ident (r_page_id r + 1)) = Some pg'
                          \<and> data_list pg' = []))"
  using seq_step [OF seq_reachable_inv [OF assms] assms(2,3), of now x] by blast

theorem sequential_rollover_witness:
  "seq_reachable test_config ''L'' (snd (atomicAppend dynamo test_config 0 ''L'' ''Hello0'' created_list))
   \<and> maxElementPerPage test_config = JNum 2 \<and> (1::int) \<le> 2
   \<and> fst (atomicAppend dynamo test_config 0 ''L'' ''Hello1''
             (snd (atomicAppend dynamo test_config 0 ''L'' ''Hello0'' created_list)))
       = Inr \<lparr>r_page_id = 0, r_sequence_id = 1\<rparr>
   \<and> (\<exists>r t' pg.
         atomicAppend dynamo test_config 0 ''L'' ''Hello1''
             (snd (atomicAppend dynamo test_config 0 ''L'' ''Hello0'' created_list)) = (Inr r, t')
         \<and> getCurrentPage dynamo ''L''
              (snd (atomicAppend dynamo test_config 0 ''L'' ''Hello0'' created_list))
             = Inr (r_page_id r)
         \<and> pages t' (page_key ''L'' (r_page_id r)) = Some pg
         \<and> int (length (data_list pg)) = r_sequence_id r + 1
         \<and> int (length (data_list pg)) \<le> 2
         \<and> (2 \<le> r_sequence_id r + 1 \<longrightarrow>
               getCurrentPage dynamo ''L'' t' = Inr (r_page_id r + 1)
               \<and> pages (snd (atomicAppend dynamo test_config 0 ''L'' ''Hello0'' created_list))
                    (page_key ''L'' (r_page_id r + 1)) = None
               \<and> (\<exists>pg'. pages t' (page_key ''L'' (r_page_id r + 1)) = Some pg'
                         \<and> data_list pg' = [])))"
proof -
  let ?t1 = "snd (atomicAppend dynamo test_config 0 ''L'' ''Hello0'' created_list)"
  have "idempotentCreate dynamo 0 ''L'' None empty_table
          = (Inr (defaultPageSummary 0 ''L'' None), created_list)"
    by (simp add: created_list_def idempotentCreate_dynamo empty_table_def)
  then have r0: "seq_reachable test_config ''L'' created_list"
    by (rule seq_reachable.created [rotated]) (simp add: empty_table_def)
  have "fst (atomicAppend dynamo test_config 0 ''L'' ''Hello0'' created_list)
          = Inr \<lparr>r_page_id = 0, r_sequence_id = 0\<rparr>"
    by code_simp
  then have "atomicAppend dynamo test_config 0 ''L'' ''Hello0'' created_list
          = (Inr \<lparr>r_page_id = 0, r_sequence_id = 0\<rparr>, ?t1)"
    by (metis prod.collapse)
  with r0 have r1: "seq_reachable test_config ''L'' ?t1"
    by (rule seq_reachable.appended)
  have m: "maxElementPerPage test_config = JNum 2"
    by code_simp
  have n: "(1::int) \<le> 2" by simp
  have f: "fst (atomicAppend dynamo test_config 0 ''L'' ''Hello1'' ?t1)
       = Inr \<lparr>r_page_id = 0, r_sequence_id = 1\<rparr>"
    by code_simp
  from sequential_rollover [OF r1 m n, of 0 "''Hello1''"] r1 m n f show ?thesis
    by blast
qed


section \<open>The recovery of a failed append\<close>

lemma appendSuccessful_dynamo_succeeds:
  "\<exists>t'. appendSuccessful dynamo cfg now ident p n t
           = (Inr \<lparr>r_page_id = p, r_sequence_id = int n - 1\<rparr>, t')
         \<and> (\<forall>q pg. pages t (page_key ident q) = Some pg \<longrightarrow> pages t' (page_key ident q) = Some pg)"
  by (auto simp: appendSuccessful_def increasePageCounter_dynamo createNewPage_dynamo Let_def
        split: option.splits)

lemma refusing_appends_sel:
  "update_list_append refusing_appends = (\<lambda>key x t. (Inl (AwsError ''ValidationException''), t))"
  "put_page refusing_appends = dynamo_put_page"
  by (simp_all add: refusing_appends_def dynamo_def)

lemma appendDataToPage_refusing:
  "appendDataToPage refusing_appends ident p x t = (Inl (AwsError ''ValidationException''), t)"
  by (simp add: appendDataToPage_def refusing_appends_sel Let_def)

lemma createNewPage_refusing:
  "createNewPage refusing_appends now ident p t = createNewPage dynamo now ident p t"
  by (simp add: createNewPage_def refusing_appends_sel dynamo_def)

lemma createNewPage_error: "createNewPage gw now ident p t = (Inl e, t') \<Longrightarrow> e = JsError"
  by (auto simp: createNewPage_def Let_def split: prod.splits sum.splits if_splits)


text \<open>
  C5. When the page is missing on the reference store, the first append fails,
  \<open>atomicAppendImpl\<close> creates the page and appends again, once: the call succeeds with
  sequence 0 and the page holds the value exactly once. For any store: when the first
  append fails with \<open>ValidationException\<close>, the page is created (or was there), and the
  second append fails in the same way, then the page is created again and the call
  fails with \<open>new Error()\<close>, whatever the outcome of that creation; no third append is
  made. On a store that refuses every append, the table after the failed call is the
  one before it with, at most, the empty page added: no element is recorded.
\<close>

theorem append_recovery_once:
  "(pages t (page_key ident p) = None \<longrightarrow>
      (\<exists>t' pg. atomicAppendImpl dynamo cfg now ident p x 0 t
                  = (Inr \<lparr>r_page_id = p, r_sequence_id = 0\<rparr>, t')
               \<and> pages t' (page_key ident p) = Some pg \<and> data_list pg = [x]))
   \<and> (appendDataToPage gw ident p x t = (Inl (AwsError ''ValidationException''), t1)
        \<and> createNewPage gw now ident p t1 = (Inr (), t2)
        \<and> appendDataToPage gw ident p x t2 = (Inl (AwsError ''ValidationException''), t3)
        \<and> createNewPage gw now ident p t3 = (outcome, t4) \<longrightarrow>
      atomicAppendImpl gw cfg now ident p x 0 t = (Inl JsError, t4))
   \<and> atomicAppendImpl refusing_appends cfg now ident p x 0 t
       = (Inl JsError,
          case pages t (page_key ident p) of
            None \<Rightarrow> t\<lparr>pages := (pages t)(page_key ident p \<mapsto>
                                    getDefaultPageData now (page_key ident p))\<rparr>
          | Some _ \<Rightarrow> t)"
proof (intro conjI impI)
  assume absent: "pages t (page_key ident p) = None"
  let ?t1 = "t\<lparr>pages := (pages t)(page_key ident p \<mapsto> getDefaultPageData now (page_key ident p))\<rparr>"
  let ?pg = "(getDefaultPageData now (page_key ident p))\<lparr>data_list := [x]\<rparr>"
  let ?t2 = "?t1\<lparr>pages := (pages ?t1)(page_key ident p \<mapsto> ?pg)\<rparr>"
  have "atomicAppendImpl dynamo cfg now ident p x 0 t = atomicAppendImpl dynamo cfg now ident p x 1 ?t1"
    using absent
    by (subst atomicAppendImpl.simps) (simp add: appendDataToPage_dynamo createNewPage_dynamo)
  also have "\<dots> = appendSuccessful dynamo cfg now ident p 1 ?t2"
  proof -
    obtain t' where "appendSuccessful dynamo cfg now ident p 1 ?t2
                       = (Inr \<lparr>r_page_id = p, r_sequence_id = int 1 - 1\<rparr>, t')"
      using appendSuccessful_dynamo_succeeds [of cfg now ident p 1 ?t2] by blast
    then show ?thesis
      by (subst atomicAppendImpl.simps)
         (simp add: appendDataToPage_dynamo getDefaultPageData_def)
  qed
  finally have e: "atomicAppendImpl dynamo cfg now ident p x 0 t
                     = appendSuccessful dynamo cfg now ident p 1 ?t2" .
  obtain t' where t': "appendSuccessful dynamo cfg now ident p 1 ?t2
                       = (Inr \<lparr>r_page_id = p, r_sequence_id = int 1 - 1\<rparr>, t')"
    and keep: "\<And>q pg. pages ?t2 (page_key ident q) = Some pg \<Longrightarrow> pages t' (page_key ident q) = Some pg"
    using appendSuccessful_dynamo_succeeds [of cfg now ident p 1 ?t2] by blast
  have "pages t' (page_key ident p) = Some ?pg"
    by (rule keep) simp
  with e t' show "\<exists>t' pg. atomicAppendImpl dynamo cfg now ident p x 0 t
                  = (Inr \<lparr>r_page_id = p, r_sequence_id = 0\<rparr>, t')
               \<and> pages t' (page_key ident p) = Some pg \<and> data_list pg = [x]"
    by (auto simp: getDefaultPageData_def)
next
  assume h: "appendDataToPage gw ident p x t = (Inl (AwsError ''ValidationException''), t1)
        \<and> createNewPage gw now ident p t1 = (Inr (), t2)
        \<and> appendDataToPage gw ident p x t2 = (Inl (AwsError ''ValidationException''), t3)
        \<and> createNewPage gw now ident p t3 = (outcome, t4)"
  have third: "atomicAppendImpl gw cfg now ident p x (Suc (Suc 0)) t4 = (Inl JsError, t4)"
    by (subst atomicAppendImpl.simps) simp
  have second: "atomicAppendImpl gw cfg now ident p x 1 t2 = (Inl JsError, t4)"
  proof (cases outcome)
    case (Inl e)
    with h createNewPage_error [of gw now ident p t3 e t4] show ?thesis
      by (subst atomicAppendImpl.simps) simp
  next
    case (Inr u)
    with h third show ?thesis
      by (subst atomicAppendImpl.simps) simp
  qed
  from h second show "atomicAppendImpl gw cfg now ident p x 0 t = (Inl JsError, t4)"
    by (subst atomicAppendImpl.simps) simp
next
  let ?t1 = "snd (createNewPage dynamo now ident p t)"
  have once: "snd (createNewPage dynamo now ident p ?t1) = ?t1"
    by (simp add: createNewPage_dynamo split: option.splits)
  have third: "atomicAppendImpl refusing_appends cfg now ident p x (Suc (Suc 0)) t' = (Inl JsError, t')" for t'
    by (subst atomicAppendImpl.simps) simp
  have second: "atomicAppendImpl refusing_appends cfg now ident p x 1 ?t1 = (Inl JsError, ?t1)"
    using once
    by (subst atomicAppendImpl.simps)
       (simp add: appendDataToPage_refusing createNewPage_refusing third createNewPage_dynamo
          split: option.splits)
  have "atomicAppendImpl refusing_appends cfg now ident p x 0 t = (Inl JsError, ?t1)"
    using second
    by (subst atomicAppendImpl.simps)
       (simp add: appendDataToPage_refusing createNewPage_refusing createNewPage_dynamo
          split: option.splits)
  then show "atomicAppendImpl refusing_appends cfg now ident p x 0 t
       = (Inl JsError,
          case pages t (page_key ident p) of
            None \<Rightarrow> t\<lparr>pages := (pages t)(page_key ident p \<mapsto>
                                    getDefaultPageData now (page_key ident p))\<rparr>
          | Some _ \<Rightarrow> t)"
    by (simp add: createNewPage_dynamo)
qed

theorem append_recovery_once_witness:
  "pages created_list (page_key ''L'' 0) = None
   \<and> (\<exists>t' pg. atomicAppendImpl dynamo test_config 0 ''L'' 0 ''Hello0'' 0 created_list
                  = (Inr \<lparr>r_page_id = 0, r_sequence_id = 0\<rparr>, t')
               \<and> pages t' (page_key ''L'' 0) = Some pg \<and> data_list pg = [''Hello0''])
   \<and> appendDataToPage refusing_appends ''L'' 0 ''Hello0'' created_list
       = (Inl (AwsError ''ValidationException''), created_list)
   \<and> createNewPage refusing_appends 0 ''L'' 0 created_list
       = (Inr (), snd (createNewPage dynamo 0 ''L'' 0 created_list))
   \<and> appendDataToPage refusing_appends ''L'' 0 ''Hello0''
         (snd (createNewPage dynamo 0 ''L'' 0 created_list))
       = (Inl (AwsError ''ValidationException''), snd (createNewPage dynamo 0 ''L'' 0 created_list))
   \<and> atomicAppendImpl refusing_appends test_config 0 ''L'' 0 ''Hello0'' 0 created_list
       = (Inl JsError, snd (createNewPage dynamo 0 ''L'' 0 created_list))"
proof -
  let ?t1 = "snd (createNewPage dynamo 0 ''L'' 0 created_list)"
  have a: "pages created_list (page_key ''L'' 0) = None"
    by code_simp
  have b: "appendDataToPage refusing_appends ''L'' 0 ''Hello0'' t
             = (Inl (AwsError ''ValidationException''), t)" for t
    by (rule appendDataToPage_refusing)
  have c: "createNewPage refusing_appends 0 ''L'' 0 created_list = (Inr (), ?t1)"
    by (simp add: createNewPage_refusing createNewPage_dynamo)
  have d: "createNewPage refusing_appends 0 ''L'' 0 ?t1 = (Inr (), ?t1)"
    by (simp add: createNewPage_refusing createNewPage_dynamo split: option.splits)
  note T = append_recovery_once
             [of created_list "''L''" 0 test_config 0 "''Hello0''" refusing_appends
                 created_list ?t1 ?t1 "Inr ()" ?t1]
  from T a have e: "\<exists>t' pg. atomicAppendImpl dynamo test_config 0 ''L'' 0 ''Hello0'' 0 created_list
                  = (Inr \<lparr>r_page_id = 0, r_sequence_id = 0\<rparr>, t')
               \<and> pages t' (page_key ''L'' 0) = Some pg \<and> data_list pg = [''Hello0'']"
    by blast
  from T b c d have f: "atomicAppendImpl refusing_appends test_config 0 ''L'' 0 ''Hello0'' 0 created_list
       = (Inl JsError, ?t1)"
    by blast
  from a b c e f show ?thesis by blast
qed

section \<open>Interleaved calls\<close>

text \<open>
  A schedule is a sequence of steps of the system, and a single call that runs alone
  for six steps is \<open>atomicAppend\<close>: the calls of the system are the function of the
  module, cut at its requests to the store.
\<close>

lemma run_schedule_steps:
  "(sys_step gw cfg ident)\<^sup>*\<^sup>* st (run_schedule gw cfg now ident sched st)"
proof (induction sched arbitrary: st)
  case Nil
  show ?case by simp
next
  case (Cons i sched)
  obtain t cs where st: "st = (t, cs)" by (cases st)
  show ?case
  proof (cases "i < length cs")
    case False
    with Cons st show ?thesis by simp
  next
    case True
    obtain c' t' where c: "call_step gw cfg now ident (cs ! i) t = (c', t')"
      by (cases "call_step gw cfg now ident (cs ! i) t")
    from True c have "sys_step gw cfg ident (t, cs) (t', cs[i := c'])"
      by (rule sys_step.advance)
    with Cons [of "(t', cs[i := c'])"] True c st show ?thesis
      by (simp add: converse_rtranclp_into_rtranclp)
  qed
qed

lemma increasePageCounter_error:
  "increasePageCounter gw ident p t = (Inl e, t') \<Longrightarrow> e = JsError"
  by (auto simp: increasePageCounter_def split: prod.splits sum.splits if_splits)

lemma appendSuccessful_error:
  "appendSuccessful gw cfg now ident p n t = (Inl e, t') \<Longrightarrow> e = JsError"
  by (auto simp: appendSuccessful_def Let_def
        split: prod.splits sum.splits if_splits option.splits
        dest: increasePageCounter_error createNewPage_error)

lemma finish_steps:
  "run_schedule gw cfg now ident [0, 0]
     (t, [if js_ge (JNum (int n)) (maxElementPerPage cfg)
          then Increasing p \<lparr>r_page_id = p, r_sequence_id = int n - 1\<rparr>
          else Finished (Inr \<lparr>r_page_id = p, r_sequence_id = int n - 1\<rparr>)])
   = (snd (appendSuccessful gw cfg now ident p n t),
      [Finished (case fst (appendSuccessful gw cfg now ident p n t) of
                   Inl e \<Rightarrow> Inl JsError | Inr r \<Rightarrow> Inr r)])"
  by (auto simp: appendSuccessful_def Let_def
        split: prod.splits sum.splits if_splits option.splits)


lemma idle_steps:
  "run_schedule gw cfg now ident (replicate k 0) (t, [Finished r]) = (t, [Finished r])"
  by (induction k) simp_all

lemma attempt_2:
  "atomicAppendImpl gw cfg now ident cp x (Suc (Suc 0)) t = (Inl JsError, t)"
  by (subst atomicAppendImpl.simps) simp

lemma appending_1:
  "run_schedule gw cfg now ident [0, 0, 0] (t, [Appending cp x (Suc 0)])
     = (snd (atomicAppendImpl gw cfg now ident cp x (Suc 0) t),
        [Finished (fst (atomicAppendImpl gw cfg now ident cp x (Suc 0) t))])"
proof (cases "appendDataToPage gw ident cp x t")
  case (Pair res t1)
  show ?thesis
  proof (cases res)
    case (Inl err)
    show ?thesis
    proof (cases "error_code err = Some ''ValidationException''")
      case True
      obtain o2 t2 where c: "createNewPage gw now ident cp t1 = (o2, t2)"
        by (cases "createNewPage gw now ident cp t1")
      show ?thesis
        using Pair Inl True c createNewPage_error [of gw now ident cp t1 _ t2]
        by (subst (1 2) atomicAppendImpl.simps) (auto simp: attempt_2 split: sum.splits)
    next
      case False
      with Pair Inl show ?thesis
        by (subst (1 2) atomicAppendImpl.simps) simp
    qed
  next
    case (Inr n)
    obtain o2 t2 where s: "appendSuccessful gw cfg now ident cp n t1 = (o2, t2)"
      by (cases "appendSuccessful gw cfg now ident cp n t1")
    have "run_schedule gw cfg now ident [0, 0, 0] (t, [Appending cp x (Suc 0)])
            = run_schedule gw cfg now ident [0, 0]
                (t1, [if js_ge (JNum (int n)) (maxElementPerPage cfg)
                      then Increasing cp \<lparr>r_page_id = cp, r_sequence_id = int n - 1\<rparr>
                      else Finished (Inr \<lparr>r_page_id = cp, r_sequence_id = int n - 1\<rparr>)])"
      using Pair Inr by simp
    also have "\<dots> = (t2, [Finished (case o2 of Inl e \<Rightarrow> Inl JsError | Inr r \<Rightarrow> Inr r)])"
      unfolding finish_steps using s by simp
    finally show ?thesis
      using Pair Inr s appendSuccessful_error [of gw cfg now ident cp n t1 _ t2]
      by (subst (1 2) atomicAppendImpl.simps) (auto split: sum.splits)
  qed
qed


lemma run_schedule_append:
  "run_schedule gw cfg now ident (a @ b) st
     = run_schedule gw cfg now ident b (run_schedule gw cfg now ident a st)"
proof (induction a arbitrary: st)
  case Nil
  show ?case by simp
next
  case (Cons i a)
  obtain t cs where "st = (t, cs)" by (cases st)
  with Cons show ?case by (simp split: prod.splits)
qed

lemma idle_2: "run_schedule gw cfg now ident [0, 0] (t, [Finished r]) = (t, [Finished r])"
  using idle_steps [of gw cfg now ident 2 t r] by (simp add: numeral_2_eq_2)

lemma idle_3: "run_schedule gw cfg now ident [0, 0, 0] (t, [Finished r]) = (t, [Finished r])"
  using idle_steps [of gw cfg now ident 3 t r] by (simp add: numeral_3_eq_3)

lemma appending_0:
  "run_schedule gw cfg now ident [0, 0, 0, 0, 0] (t, [Appending cp x 0])
     = (snd (atomicAppendImpl gw cfg now ident cp x 0 t),
        [Finished (fst (atomicAppendImpl gw cfg now ident cp x 0 t))])"
proof (cases "appendDataToPage gw ident cp x t")
  case (Pair res t1)
  show ?thesis
  proof (cases res)
    case (Inl err)
    show ?thesis
    proof (cases "error_code err = Some ''ValidationException''")
      case True
      obtain o2 t2 where c: "createNewPage gw now ident cp t1 = (o2, t2)"
        by (cases "createNewPage gw now ident cp t1")
      show ?thesis
      proof (cases o2)
        case (Inl e)
        with Pair \<open>res = Inl err\<close> True c createNewPage_error [of gw now ident cp t1 e t2]
        show ?thesis
          by (subst (1 2) atomicAppendImpl.simps) simp
      next
        case (Inr u)
        have two: "run_schedule gw cfg now ident [0, 0] (t, [Appending cp x 0])
                     = (t2, [Appending cp x (Suc 0)])"
          using Pair \<open>res = Inl err\<close> True c Inr by simp
        have "run_schedule gw cfg now ident ([0, 0] @ [0, 0, 0]) (t, [Appending cp x 0])
                = run_schedule gw cfg now ident [0, 0, 0] (t2, [Appending cp x (Suc 0)])"
          unfolding run_schedule_append two ..
        then have lhs: "run_schedule gw cfg now ident [0, 0, 0, 0, 0] (t, [Appending cp x 0])
                = (snd (atomicAppendImpl gw cfg now ident cp x (Suc 0) t2),
                   [Finished (fst (atomicAppendImpl gw cfg now ident cp x (Suc 0) t2))])"
          by (simp add: appending_1 del: run_schedule.simps)
        have rhs: "atomicAppendImpl gw cfg now ident cp x 0 t
                     = atomicAppendImpl gw cfg now ident cp x (Suc 0) t2"
          using Pair \<open>res = Inl err\<close> True c Inr
          by (subst atomicAppendImpl.simps) simp
        show ?thesis unfolding lhs rhs ..
      qed
    next
      case False
      with Pair Inl show ?thesis
        by (subst (1 2) atomicAppendImpl.simps) simp
    qed
  next
    case (Inr n)
    obtain o2 t2 where s: "appendSuccessful gw cfg now ident cp n t1 = (o2, t2)"
      by (cases "appendSuccessful gw cfg now ident cp n t1")
    let ?c = "if js_ge (JNum (int n)) (maxElementPerPage cfg)
              then Increasing cp \<lparr>r_page_id = cp, r_sequence_id = int n - 1\<rparr>
              else Finished (Inr \<lparr>r_page_id = cp, r_sequence_id = int n - 1\<rparr>)"
    have one: "run_schedule gw cfg now ident [0] (t, [Appending cp x 0]) = (t1, [?c])"
      using Pair Inr by simp
    have "run_schedule gw cfg now ident ([0] @ [0, 0] @ [0, 0]) (t, [Appending cp x 0])
            = run_schedule gw cfg now ident [0, 0] (run_schedule gw cfg now ident [0, 0] (t1, [?c]))"
      unfolding run_schedule_append one ..
    also have "\<dots> = (t2, [Finished (case o2 of Inl e \<Rightarrow> Inl JsError | Inr r \<Rightarrow> Inr r)])"
      unfolding finish_steps using s by (simp add: idle_2 del: run_schedule.simps)
    finally have lhs: "run_schedule gw cfg now ident [0, 0, 0, 0, 0] (t, [Appending cp x 0])
            = (t2, [Finished (case o2 of Inl e \<Rightarrow> Inl JsError | Inr r \<Rightarrow> Inr r)])"
      by (simp del: run_schedule.simps)
    have rhs: "atomicAppendImpl gw cfg now ident cp x 0 t
                 = (case o2 of Inl e \<Rightarrow> Inl JsError | Inr r \<Rightarrow> Inr r, t2)"
      using Pair Inr s appendSuccessful_error [of gw cfg now ident cp n t1 _ t2]
      by (subst atomicAppendImpl.simps) (auto split: sum.splits)
    show ?thesis unfolding lhs rhs by simp
  qed
qed

lemma single_call_is_atomicAppend:
  "run_schedule gw cfg now ident [0, 0, 0, 0, 0, 0] (t, [Start x])
     = (snd (atomicAppend gw cfg now ident x t), [Finished (fst (atomicAppend gw cfg now ident x t))])"
proof (cases "getCurrentPage gw ident t")
  case (Inl e)
  then show ?thesis by (simp add: atomicAppend_def)
next
  case (Inr cp)
  have one: "run_schedule gw cfg now ident [0] (t, [Start x]) = (t, [Appending cp x 0])"
    using Inr by simp
  have "run_schedule gw cfg now ident ([0] @ [0, 0, 0, 0, 0]) (t, [Start x])
          = run_schedule gw cfg now ident [0, 0, 0, 0, 0] (t, [Appending cp x 0])"
    unfolding run_schedule_append one ..
  then have "run_schedule gw cfg now ident [0, 0, 0, 0, 0, 0] (t, [Start x])
          = (snd (atomicAppendImpl gw cfg now ident cp x 0 t),
             [Finished (fst (atomicAppendImpl gw cfg now ident cp x 0 t))])"
    by (simp add: appending_0 del: run_schedule.simps)
  then show ?thesis
    using Inr by (simp add: atomicAppend_def del: run_schedule.simps)
qed

text \<open>On the reference store no step of a call lowers the counter of the summary.\<close>

lemma call_step_counter:
  assumes "call_step dynamo cfg now ident c t = (c', t')"
    and "summaries t (summary_key ident) = Some sm"
  shows "\<exists>sm'. summaries t' (summary_key ident) = Some sm' \<and> currentPage sm \<le> currentPage sm'"
proof (cases c)
  case (Start x)
  with assms show ?thesis by (auto split: sum.splits)
next
  case (Appending cp x attempt)
  with assms show ?thesis
    by (auto simp: appendDataToPage_dynamo split: if_splits option.splits)
next
  case (Recovering cp x attempt)
  with assms show ?thesis
    by (auto simp: createNewPage_dynamo split: option.splits)
next
  case (Increasing cp result)
  with assms show ?thesis
    by (auto simp: increasePageCounter_dynamo split: if_splits option.splits)
next
  case (Creating q result)
  with assms show ?thesis
    by (auto simp: createNewPage_dynamo split: option.splits)
next
  case (Finished r)
  with assms show ?thesis by simp
qed

lemma sys_step_counter:
  assumes "sys_step dynamo cfg ident st st'"
    and "summaries (fst st) (summary_key ident) = Some sm"
  shows "\<exists>sm'. summaries (fst st') (summary_key ident) = Some sm'
               \<and> currentPage sm \<le> currentPage sm'"
  using assms
proof (induction rule: sys_step.induct)
  case (spawn t cs x)
  then show ?case by simp
next
  case (advance i cs now t c' t')
  from call_step_counter [OF advance(2)] advance(3) show ?case by simp
qed

lemma sys_steps_counter:
  assumes "(sys_step dynamo cfg ident)\<^sup>*\<^sup>* st st'"
    and "summaries (fst st) (summary_key ident) = Some sm"
  shows "\<exists>sm'. summaries (fst st') (summary_key ident) = Some sm'
               \<and> currentPage sm \<le> currentPage sm'"
  using assms
proof (induction rule: rtranclp_induct)
  case base
  then show ?case by simp
next
  case (step y z)
  from step(3) [OF step(4)] obtain sm1 where
    a: "summaries (fst y) (summary_key ident) = Some sm1" "currentPage sm \<le> currentPage sm1"
    by blast
  from sys_step_counter [OF step(2) a(1)] a(2) show ?case by force
qed


text \<open>
  C7. After the list is created on the reference store, in every state reached by any
  interleaving of calls of \<open>atomicAppend\<close> the summary can be read and its counter is not
  negative; and from any such state, whatever steps follow, the counter read later is
  not lower than the counter read before.
\<close>

theorem monotone_counter:
  assumes "idempotentCreate dynamo now ident metadata t0 = (Inr s, t1)"
    and "(sys_step dynamo cfg ident)\<^sup>*\<^sup>* (t1, []) (t, cs)"
    and "(sys_step dynamo cfg ident)\<^sup>*\<^sup>* (t, cs) (t', cs')"
  shows "\<exists>p p'. getCurrentPage dynamo ident t = Inr p \<and> getCurrentPage dynamo ident t' = Inr p'
                \<and> 0 \<le> p \<and> p \<le> p'"
proof -
  from assms(1) have "summaries t1 (summary_key ident) = Some (defaultPageSummary now ident metadata)"
    by (auto simp: idempotentCreate_dynamo split: option.splits)
  from sys_steps_counter [OF assms(2), of "defaultPageSummary now ident metadata"] this
  obtain sm where sm: "summaries t (summary_key ident) = Some sm" "0 \<le> currentPage sm"
    by (auto simp: defaultPageSummary_def)
  from sys_steps_counter [OF assms(3), of sm] sm(1)
  obtain sm' where "summaries t' (summary_key ident) = Some sm'" "currentPage sm \<le> currentPage sm'"
    by auto
  with sm show ?thesis
    by (simp add: getCurrentPage_dynamo)
qed

theorem monotone_counter_witness:
  "idempotentCreate dynamo 0 ''L'' None empty_table
     = (Inr (defaultPageSummary 0 ''L'' None), created_list)
   \<and> (sys_step dynamo test_config ''L'')\<^sup>*\<^sup>* (created_list, [])
        (run_schedule dynamo test_config 0 ''L'' [0, 1, 0, 0, 0] two_calls)
   \<and> (sys_step dynamo test_config ''L'')\<^sup>*\<^sup>*
        (run_schedule dynamo test_config 0 ''L'' [0, 1, 0, 0, 0] two_calls)
        (run_schedule dynamo test_config 0 ''L'' [0, 1, 0, 0, 0, 1, 1, 1] two_calls)
   \<and> getCurrentPage dynamo ''L''
        (fst (run_schedule dynamo test_config 0 ''L'' [0, 1, 0, 0, 0] two_calls))
       = Inr 0
   \<and> getCurrentPage dynamo ''L''
        (fst (run_schedule dynamo test_config 0 ''L'' [0, 1, 0, 0, 0, 1, 1, 1] two_calls))
       = Inr 1
   \<and> snd (run_schedule dynamo test_config 0 ''L'' [0, 1, 0, 0, 0, 1, 1, 1] two_calls)
       = [Finished (Inr \<lparr>r_page_id = 0, r_sequence_id = 0\<rparr>),
          Finished (Inr \<lparr>r_page_id = 0, r_sequence_id = 1\<rparr>)]
   \<and> (\<exists>p p'. getCurrentPage dynamo ''L''
                 (fst (run_schedule dynamo test_config 0 ''L'' [0, 1, 0, 0, 0] two_calls)) = Inr p
              \<and> getCurrentPage dynamo ''L''
                 (fst (run_schedule dynamo test_config 0 ''L'' [0, 1, 0, 0, 0, 1, 1, 1] two_calls))
                  = Inr p'
              \<and> 0 \<le> p \<and> p \<le> p')"
proof -
  let ?mid = "run_schedule dynamo test_config 0 ''L'' [0, 1, 0, 0, 0] two_calls"
  let ?fin = "run_schedule dynamo test_config 0 ''L'' [0, 1, 0, 0, 0, 1, 1, 1] two_calls"
  have c: "idempotentCreate dynamo 0 ''L'' None empty_table
             = (Inr (defaultPageSummary 0 ''L'' None), created_list)"
    by (simp add: created_list_def idempotentCreate_dynamo empty_table_def)
  have "sys_step dynamo test_config ''L'' (created_list, []) (created_list, [] @ [Start ''Hello0''])"
    by (rule sys_step.spawn)
  moreover have "sys_step dynamo test_config ''L'' (created_list, [Start ''Hello0''])
                   (created_list, [Start ''Hello0''] @ [Start ''Hello1''])"
    by (rule sys_step.spawn)
  ultimately have s0: "(sys_step dynamo test_config ''L'')\<^sup>*\<^sup>* (created_list, []) two_calls"
    by (simp add: two_calls_def)
  have s1: "(sys_step dynamo test_config ''L'')\<^sup>*\<^sup>* (created_list, []) ?mid"
    using s0 run_schedule_steps [of dynamo test_config "''L''" two_calls 0 "[0, 1, 0, 0, 0]"]
    by (rule rtranclp_trans)
  have split: "?fin = run_schedule dynamo test_config 0 ''L'' [1, 1, 1] ?mid"
    by (simp add: two_calls_def split: prod.splits)
  have s2: "(sys_step dynamo test_config ''L'')\<^sup>*\<^sup>* ?mid ?fin"
    unfolding split by (rule run_schedule_steps)
  have g0: "getCurrentPage dynamo ''L'' (fst ?mid) = Inr 0"
    by code_simp
  have g1: "getCurrentPage dynamo ''L'' (fst ?fin) = Inr 1"
    by code_simp
  have r: "snd ?fin = [Finished (Inr \<lparr>r_page_id = 0, r_sequence_id = 0\<rparr>),
                      Finished (Inr \<lparr>r_page_id = 0, r_sequence_id = 1\<rparr>)]"
    by code_simp
  have e: "\<exists>p p'. getCurrentPage dynamo ''L'' (fst ?mid) = Inr p
              \<and> getCurrentPage dynamo ''L'' (fst ?fin) = Inr p' \<and> 0 \<le> p \<and> p \<le> p'"
    using monotone_counter [OF c, of test_config "fst ?mid" "snd ?mid" "fst ?fin" "snd ?fin"] s1 s2
    by simp
  show ?thesis
    using c s1 s2 g0 g1 r e by (intro conjI)
qed

end
